theory Spec2Isabelle
  imports Complex_Main
begin

section \<open>Numbers\<close>

text \<open>
  The engine computes with Python floats. They are modelled as the real numbers: every
  arithmetic operation is exact, so rounding, overflow to infinity and subnormal underflow
  are outside the model. Python integers that are only ever used as loop bounds or grid
  indices (\<open>rows\<close>, \<open>columns\<close>) stay integers.
\<close>

section \<open>Cal\_Math.py: CalibrationData\<close>

text \<open>
  \<open>convert_unit(value, from_unit, to_unit)\<close>: first to grams, then to the target unit.
  An unknown source or target unit leaves the value unchanged.
\<close>

definition convert_unit :: "real \<Rightarrow> string \<Rightarrow> string \<Rightarrow> real" where
  "convert_unit val from_unit to_unit =
     (let val =
        (if from_unit \<noteq> ''g'' then
           (if from_unit = ''kg'' then val * 1000
            else if from_unit = ''oz'' then val * 28.3495
            else if from_unit \<in> set [''lb'', ''lbs''] then val * 453.592
            else val)
         else val)
      in if to_unit = ''g'' then val
         else if to_unit = ''kg'' then val / 1000
         else if to_unit = ''oz'' then val * 0.03527396195
         else if to_unit \<in> set [''lb'', ''lbs''] then val * 0.00220462262
         else val)"

text \<open>
  One entry of \<open>self.calibrations\<close>: a dict read with \<open>cal.get("slope", 1.0)\<close> and
  \<open>cal.get("intercept", 0.0)\<close>; a missing key is \<open>None\<close>.
\<close>

record sensor_calibration =
  slope :: "real option"
  intercept :: "real option"

definition get_or :: "'a option \<Rightarrow> 'a \<Rightarrow> 'a" where
  "get_or v d = (case v of None \<Rightarrow> d | Some x \<Rightarrow> x)"

text \<open>
  \<open>apply(values, unit)\<close>: the loop over \<open>enumerate(values)\<close>, written as a recursion that
  carries the index \<open>i\<close>.
\<close>

fun apply_from :: "sensor_calibration list \<Rightarrow> string \<Rightarrow> nat \<Rightarrow> real list \<Rightarrow> real list" where
  "apply_from cals unit i [] = []"
| "apply_from cals unit i (val # vals) =
     (let calibrated_value =
        (if i < length cals then
           (let cal = cals ! i
            in get_or (slope cal) 1.0 * val + get_or (intercept cal) 0.0)
         else val)
      in convert_unit calibrated_value ''g'' unit # apply_from cals unit (Suc i) vals)"

definition apply_calibration :: "sensor_calibration list \<Rightarrow> real list \<Rightarrow> string \<Rightarrow> real list" where
  "apply_calibration cals vals unit = apply_from cals unit 0 vals"

section \<open>Alg\_Math.py: WeightDistribution\<close>

text \<open>
  The Qt signals an operation emits are recorded, in order, in the field \<open>emitted\<close>.
  \<open>calibration\<close> is \<open>None\<close> when the engine was built without a \<open>CalibrationData\<close>,
  and otherwise holds that object's list \<open>calibrations\<close>.
\<close>

datatype signal =
  GeometryChanged
| ComCalculated "real \<times> real"
| DisplacementCalculated "real \<times> real"

record weight_distribution =
  calibration :: "sensor_calibration list option"
  sensor_weights :: "real list"
  sensor_positions :: "(real \<times> real) list"
  ideal_com :: "real \<times> real"
  actual_com :: "real \<times> real"
  displacement :: "real \<times> real"
  emitted :: "signal list"

definition calculate_displacement :: "weight_distribution \<Rightarrow> weight_distribution" where
  "calculate_displacement s =
     (let dx = fst (actual_com s) - fst (ideal_com s);
          dy = snd (actual_com s) - snd (ideal_com s)
      in s\<lparr>displacement := (dx, dy),
           emitted := emitted s @ [DisplacementCalculated (dx, dy)]\<rparr>)"

text \<open>
  \<open>calculate_com(self)\<close>. The body sits in a \<open>try\<close> block, but with weights and
  positions of these types nothing in it raises: both divisions are guarded
  (\<open>len(x_values) > 0\<close>, \<open>total_weight > 0\<close>) and \<open>zip\<close> stops at the shorter list.
\<close>

definition calculate_com :: "weight_distribution \<Rightarrow> weight_distribution" where
  "calculate_com s =
     (let total_weight = sum_list (sensor_weights s)
      in if total_weight \<le> 0 then
           (if length (sensor_positions s) > 0 then
              (let x_values = map fst (sensor_positions s);
                   y_values = map snd (sensor_positions s);
                   center_x = sum_list x_values / real (length x_values);
                   center_y = sum_list y_values / real (length y_values);
                   s1 = s\<lparr>actual_com := (center_x, center_y),
                          emitted := emitted s @ [ComCalculated (center_x, center_y)]\<rparr>
               in calculate_displacement s1)
            else s)
         else
           (let weighted_x = (\<Sum>(weight, pos) \<leftarrow> zip (sensor_weights s) (sensor_positions s).
                                weight * fst pos);
                weighted_y = (\<Sum>(weight, pos) \<leftarrow> zip (sensor_weights s) (sensor_positions s).
                                weight * snd pos);
                com_x = weighted_x / total_weight;
                com_y = weighted_y / total_weight;
                s1 = s\<lparr>actual_com := (com_x, com_y),
                       emitted := emitted s @ [ComCalculated (com_x, com_y)]\<rparr>
            in calculate_displacement s1))"

definition update_sensor_positions ::
  "weight_distribution \<Rightarrow> (real \<times> real) list \<Rightarrow> weight_distribution" where
  "update_sensor_positions s positions =
     (let s1 = calculate_com (s\<lparr>sensor_positions := positions\<rparr>)
      in s1\<lparr>emitted := emitted s1 @ [GeometryChanged]\<rparr>)"

definition update_ideal_com :: "weight_distribution \<Rightarrow> real \<times> real \<Rightarrow> weight_distribution" where
  "update_ideal_com s com_pos =
     (let s1 = s\<lparr>ideal_com := com_pos\<rparr>
      in if actual_com s1 \<noteq> (0, 0) then calculate_displacement s1 else s1)"

text \<open>
  The values \<open>update_sensor_data\<close> works on after its calibration step: the input itself
  when it is marked pre-calibrated or when there is no calibration, and
  \<open>self.calibration.apply(values, "g")\<close> otherwise.
\<close>

definition calibrated_values :: "weight_distribution \<Rightarrow> real list \<Rightarrow> bool \<Rightarrow> real list" where
  "calibrated_values s vals pre_calibrated =
     (if pre_calibrated then vals
      else (case calibration s of
              Some cals \<Rightarrow> apply_calibration cals vals ''g''
            | None \<Rightarrow> vals))"

text \<open>
  \<open>update_sensor_data(values, tare_values=None, pre_calibrated=False)\<close>. The test
  \<open>if tare_values and len(tare_values) >= 4\<close> fails for \<open>None\<close> and for a short list.
\<close>

definition update_sensor_data ::
  "weight_distribution \<Rightarrow> real list \<Rightarrow> real list option \<Rightarrow> bool \<Rightarrow> weight_distribution" where
  "update_sensor_data s vals tare_values pre_calibrated =
     (if length vals < 4 then s
      else
        (let calibrated = calibrated_values s vals pre_calibrated;
             weights =
               (case tare_values of
                  Some tares \<Rightarrow>
                    (if tares \<noteq> [] \<and> length tares \<ge> 4 then
                       map (\<lambda>(cal, tare). max 0 (cal - tare)) (zip calibrated tares)
                     else map (\<lambda>val. if pre_calibrated then \<bar>val\<bar> else max 0 val) calibrated)
                | None \<Rightarrow> map (\<lambda>val. if pre_calibrated then \<bar>val\<bar> else max 0 val) calibrated)
         in calculate_com (s\<lparr>sensor_weights := weights\<rparr>)))"

definition transform_point ::
  "real \<times> real \<Rightarrow> real \<Rightarrow> real \<Rightarrow> real \<Rightarrow> real \<Rightarrow> real \<Rightarrow> real \<times> real" where
  "transform_point point scale offset_x offset_y min_x min_y =
     (let view_x = offset_x + (fst point - min_x) * scale;
          view_y = offset_y + (min_y + (min_y - snd point) * (- 1)) * scale
      in (view_x, view_y))"

section \<open>Alg\_Math.py: TrayOptimizer\<close>

text \<open>
  Exceptions are values: a failed dict lookup \<open>d[key]\<close> is \<open>KeyError key\<close>, an
  out-of-range list index is \<open>IndexError\<close>, and a function that can raise returns
  \<open>error + result\<close>.
\<close>

datatype error = KeyError string | IndexError

definition lookup :: "'v option \<Rightarrow> string \<Rightarrow> error + 'v" where
  "lookup v key = (case v of None \<Rightarrow> Inl (KeyError key) | Some x \<Rightarrow> Inr x)"

text \<open>
  The settings dict of one tray. A field is \<open>None\<close> when its key is missing. \<open>rows\<close> and
  \<open>columns\<close> are Python ints (they go through \<open>range\<close>); the lengths are floats.
\<close>

record tray_settings =
  rows :: "int option"
  columns :: "int option"
  y_position :: "real option"
  cell_width :: "real option"
  cell_height :: "real option"
  wall_thickness :: "real option"

text \<open>
  The loop variable \<open>tray_name\<close> takes the values \<open>"front"\<close> and \<open>"back"\<close>. The dicts
  \<open>layout\<close> (keys \<open>"front_tray"\<close>, \<open>"back_tray"\<close>) and \<open>effect_map\<close> (keys \<open>"front"\<close>,
  \<open>"back"\<close>) always hold both keys, so they are functions of the tray name.
\<close>

datatype tray_name = Front | Back

definition tray_key :: "tray_name \<Rightarrow> string" where
  "tray_key tn = (case tn of Front \<Rightarrow> ''front'' | Back \<Rightarrow> ''back'')"

type_synonym 'a trays = "tray_name \<Rightarrow> 'a list list"

text \<open>
  A tray slot is the dict \<open>{"tray", "row", "col", "x", "y"}\<close>; a candidate is the same dict
  after \<open>slot["percent_improvement"] = percent\<close>.
\<close>

record slot =
  slot_tray :: tray_name
  slot_row :: nat
  slot_col :: nat
  slot_x :: real
  slot_y :: real

record candidate = slot +
  percent_improvement :: real

definition with_percent :: "slot \<Rightarrow> real \<Rightarrow> candidate" where
  "with_percent sl percent =
     \<lparr>slot_tray = slot_tray sl, slot_row = slot_row sl, slot_col = slot_col sl,
      slot_x = slot_x sl, slot_y = slot_y sl, percent_improvement = percent\<rparr>"

text \<open>The returned dict; the key \<open>"displacement"\<close> is the field \<open>final_disp\<close>.\<close>

record layout_result =
  front_tray :: "int list list"
  back_tray :: "int list list"
  final_com :: "real \<times> real"
  final_disp :: real
  total_weight :: real
  effect_map :: "real trays"

definition effect_weight_grams :: real where
  "effect_weight_grams = 113"

definition apply_bias_to_com :: "real \<times> real \<Rightarrow> (string \<rightharpoonup> real) \<Rightarrow> real \<times> real" where
  "apply_bias_to_com com bias = (fst com + get_or (bias ''x'') 0.0, snd com + get_or (bias ''y'') 0.0)"

definition convert_to_grams :: "real \<Rightarrow> string \<Rightarrow> real" where
  "convert_to_grams val from_unit = convert_unit val from_unit ''g''"

text \<open>\<open>TrayOptimizer.calculate_com(weights, positions)\<close> and \<open>calculate_displacement\<close>.\<close>

definition optimizer_calculate_com :: "real list \<Rightarrow> (real \<times> real) list \<Rightarrow> real \<times> real" where
  "optimizer_calculate_com weights positions =
     (let total = sum_list weights
      in if total = 0 then (0.0, 0.0)
         else ((\<Sum>(w, pos) \<leftarrow> zip weights positions. w * fst pos) / total,
               (\<Sum>(w, pos) \<leftarrow> zip weights positions. w * snd pos) / total))"

definition optimizer_calculate_displacement :: "real \<times> real \<Rightarrow> real \<times> real \<Rightarrow> real" where
  "optimizer_calculate_displacement actual ideal =
     (let dx = fst actual - fst ideal;
          dy = snd actual - snd ideal
      in sqrt (dx ^ 2 + dy ^ 2))"

text \<open>
  Lines 389--401: the slots of one tray, row by row. \<open>range\<close> of a non-positive number is
  empty.
\<close>

definition grid_slots ::
  "tray_name \<Rightarrow> int \<Rightarrow> int \<Rightarrow> real \<Rightarrow> real \<Rightarrow> real \<Rightarrow> real \<Rightarrow> slot list" where
  "grid_slots tn n_rows n_cols y_center cell_w cell_h wall =
     (let x_spacing = cell_w + wall;
          y_spacing = cell_h + wall;
          center_row = (real_of_int n_rows - 1) / 2;
          center_col = (real_of_int n_cols - 1) / 2
      in concat (map (\<lambda>row. map (\<lambda>col.
           (let dx = (real col - center_col) * x_spacing;
                dy = (real row - center_row) * y_spacing
            in \<lparr>slot_tray = tn, slot_row = row, slot_col = col,
                slot_x = dx, slot_y = y_center + dy\<rparr>))
           [0..<nat n_cols]) [0..<nat n_rows]))"

text \<open>
  Lines 369--401: one pass of the loop \<open>for tray_name in ["front", "back"]\<close>, on the
  state \<open>(tray_slots, layout, effect_map)\<close>. The keys are read in the source's order, so
  the first missing one is the one reported.
\<close>

definition build_tray ::
  "(string \<rightharpoonup> tray_settings) \<Rightarrow> (string \<rightharpoonup> bool) \<Rightarrow> tray_name \<Rightarrow>
   slot list \<times> int trays \<times> real trays \<Rightarrow> error + slot list \<times> int trays \<times> real trays" where
  "build_tray general_settings tray_flags tn st =
     (case st of (tray_slots, lay, emap) \<Rightarrow>
      if \<not> get_or (tray_flags (tray_key tn)) False then Inr st
      else
        (let key = (if tn = Front then ''weight_tray1'' else ''weight_tray2'') in
         case lookup (general_settings key) key of Inl e \<Rightarrow> Inl e | Inr tray \<Rightarrow>
         case lookup (rows tray) ''rows'' of Inl e \<Rightarrow> Inl e | Inr n_rows \<Rightarrow>
         case lookup (columns tray) ''columns'' of Inl e \<Rightarrow> Inl e | Inr n_cols \<Rightarrow>
         case lookup (y_position tray) ''y_position'' of Inl e \<Rightarrow> Inl e | Inr y_center \<Rightarrow>
         case lookup (cell_width tray) ''cell_width'' of Inl e \<Rightarrow> Inl e | Inr cell_w \<Rightarrow>
         case lookup (cell_height tray) ''cell_height'' of Inl e \<Rightarrow> Inl e | Inr cell_h \<Rightarrow>
         case lookup (wall_thickness tray) ''wall_thickness'' of Inl e \<Rightarrow> Inl e | Inr wall \<Rightarrow>
           Inr (tray_slots @ grid_slots tn n_rows n_cols y_center cell_w cell_h wall,
                lay(tn := replicate (nat n_rows) (replicate (nat n_cols) 0)),
                emap(tn := replicate (nat n_rows) (replicate (nat n_cols) 0.0)))))"

definition build_slots ::
  "(string \<rightharpoonup> tray_settings) \<Rightarrow> (string \<rightharpoonup> bool) \<Rightarrow>
   error + slot list \<times> int trays \<times> real trays" where
  "build_slots general_settings tray_flags =
     (case build_tray general_settings tray_flags Front ([], \<lambda>_. [], \<lambda>_. []) of
        Inl e \<Rightarrow> Inl e
      | Inr st \<Rightarrow> build_tray general_settings tray_flags Back st)"

text \<open>Lines 408--418: the relative improvement of one extra unit placed in a slot.\<close>

definition slot_percent ::
  "real list \<Rightarrow> (real \<times> real) list \<Rightarrow> real \<times> real \<Rightarrow> real \<Rightarrow> slot \<Rightarrow> real" where
  "slot_percent sensor_ws sensor_ps ideal original_disp sl =
     (let test_weights = sensor_ws @ [effect_weight_grams];
          test_positions = sensor_ps @ [(slot_x sl, slot_y sl)];
          test_com = optimizer_calculate_com test_weights test_positions;
          new_disp = optimizer_calculate_displacement test_com ideal;
          improvement = original_disp - new_disp
      in if original_disp \<noteq> 0 then improvement / original_disp else 0)"

text \<open>Lines 404--426: the loop over \<open>tray_slots\<close>, on \<open>(candidates, max_improvement)\<close>.\<close>

fun simulate_slots ::
  "real list \<Rightarrow> (real \<times> real) list \<Rightarrow> real \<times> real \<Rightarrow> real \<Rightarrow> slot list \<Rightarrow>
   candidate list \<times> real \<Rightarrow> candidate list \<times> real" where
  "simulate_slots sensor_ws sensor_ps ideal original_disp [] acc = acc"
| "simulate_slots sensor_ws sensor_ps ideal original_disp (sl # rest) (candidates, max_improvement) =
     (let percent = slot_percent sensor_ws sensor_ps ideal original_disp sl;
          max_improvement = (if percent > max_improvement then percent else max_improvement);
          candidates = (if percent > 0 then candidates @ [with_percent sl percent] else candidates)
      in simulate_slots sensor_ws sensor_ps ideal original_disp rest (candidates, max_improvement))"

text \<open>
  Lines 428--440. \<open>candidates.sort(key=..., reverse=True)\<close> is stable: candidates with
  equal percent keep their order. So is the insertion sort \<open>sort_key\<close> on the negated key.
\<close>

definition sort_candidates :: "candidate list \<Rightarrow> candidate list" where
  "sort_candidates candidates = sort_key (\<lambda>s. - percent_improvement s) candidates"

definition apply_threshold :: "real option \<Rightarrow> real \<Rightarrow> candidate list \<Rightarrow> candidate list" where
  "apply_threshold threshold max_improvement candidates =
     (case threshold of
        None \<Rightarrow> candidates
      | Some t \<Rightarrow>
          if t > 0 \<and> max_improvement > 0 then
            (let absolute_threshold = max_improvement * t
             in filter (\<lambda>c. percent_improvement c \<ge> absolute_threshold) candidates)
          else candidates)"

text \<open>Writing and reading one cell of a list of rows; Python raises out of range.\<close>

definition set_cell :: "'a list list \<Rightarrow> nat \<Rightarrow> nat \<Rightarrow> 'a \<Rightarrow> error + 'a list list" where
  "set_cell grid r c v =
     (if r < length grid \<and> c < length (grid ! r) then Inr (grid[r := (grid ! r)[c := v]])
      else Inl IndexError)"

definition get_cell :: "'a list list \<Rightarrow> nat \<Rightarrow> nat \<Rightarrow> error + 'a" where
  "get_cell grid r c =
     (if r < length grid \<and> c < length (grid ! r) then Inr (grid ! r ! c) else Inl IndexError)"

text \<open>
  Lines 446--459: the greedy loop, on \<open>(layout, effect_map, added_weight, used_slots)\<close>;
  \<open>break\<close> returns the state as it is.
\<close>

fun place_weights ::
  "real \<Rightarrow> candidate list \<Rightarrow> int trays \<times> real trays \<times> real \<times> candidate list \<Rightarrow>
   error + int trays \<times> real trays \<times> real \<times> candidate list" where
  "place_weights available_weight [] st = Inr st"
| "place_weights available_weight (sl # rest) (lay, emap, added_weight, used_slots) =
     (if added_weight + effect_weight_grams > available_weight then
        Inr (lay, emap, added_weight, used_slots)
      else
        (case set_cell (lay (slot_tray sl)) (slot_row sl) (slot_col sl) 1 of
           Inl e \<Rightarrow> Inl e
         | Inr lay_rows \<Rightarrow>
        (case set_cell (emap (slot_tray sl)) (slot_row sl) (slot_col sl) (percent_improvement sl) of
           Inl e \<Rightarrow> Inl e
         | Inr emap_rows \<Rightarrow>
             place_weights available_weight rest
               (lay(slot_tray sl := lay_rows), emap(slot_tray sl := emap_rows),
                added_weight + effect_weight_grams, used_slots @ [sl]))))"

text \<open>Lines 461--479: the recorded effects of the used slots, and their normalisation.\<close>

fun used_effects_of :: "real trays \<Rightarrow> candidate list \<Rightarrow> error + real list" where
  "used_effects_of emap [] = Inr []"
| "used_effects_of emap (sl # rest) =
     (case get_cell (emap (slot_tray sl)) (slot_row sl) (slot_col sl) of
        Inl e \<Rightarrow> Inl e
      | Inr effect_value \<Rightarrow>
          (case used_effects_of emap rest of
             Inl e \<Rightarrow> Inl e
           | Inr effects \<Rightarrow> Inr (effect_value # effects)))"

fun divide_used :: "real \<Rightarrow> candidate list \<Rightarrow> real trays \<Rightarrow> error + real trays" where
  "divide_used max_effect [] emap = Inr emap"
| "divide_used max_effect (sl # rest) emap =
     (case get_cell (emap (slot_tray sl)) (slot_row sl) (slot_col sl) of
        Inl e \<Rightarrow> Inl e
      | Inr v \<Rightarrow>
          if v > 0 then
            (case set_cell (emap (slot_tray sl)) (slot_row sl) (slot_col sl) (v / max_effect) of
               Inl e \<Rightarrow> Inl e
             | Inr emap_rows \<Rightarrow> divide_used max_effect rest (emap(slot_tray sl := emap_rows)))
          else divide_used max_effect rest emap)"

definition normalize_effect_map :: "real trays \<Rightarrow> candidate list \<Rightarrow> error + real trays" where
  "normalize_effect_map emap used_slots =
     (case used_effects_of emap used_slots of
        Inl e \<Rightarrow> Inl e
      | Inr [] \<Rightarrow> Inr emap
      | Inr (e # es) \<Rightarrow> divide_used (fold max es e) used_slots emap)"

text \<open>Lines 403--440: simulate every slot, sort the candidates, apply the threshold.\<close>

definition select_candidates ::
  "real list \<Rightarrow> (real \<times> real) list \<Rightarrow> real \<times> real \<Rightarrow> real \<Rightarrow> real option \<Rightarrow> slot list \<Rightarrow>
   candidate list" where
  "select_candidates sensor_ws sensor_ps ideal original_disp threshold tray_slots =
     (let (candidates, max_improvement) =
            simulate_slots sensor_ws sensor_ps ideal original_disp tray_slots ([], 0);
          candidates = sort_candidates candidates
      in apply_threshold threshold max_improvement candidates)"

text \<open>
  \<open>compute_optimal_tray_layout\<close>. \<open>max_additional_weights\<close> (line 443) is only printed
  and is left out.
\<close>

definition compute_optimal_tray_layout ::
  "real list \<Rightarrow> (real \<times> real) list \<Rightarrow> real \<times> real \<Rightarrow> (string \<rightharpoonup> real) \<Rightarrow>
   (string \<rightharpoonup> tray_settings) \<Rightarrow> (string \<rightharpoonup> bool) \<Rightarrow> real \<Rightarrow> string \<Rightarrow> real option \<Rightarrow>
   error + layout_result" where
  "compute_optimal_tray_layout sensor_ws sensor_ps ideal bias_settings general_settings
     tray_flags max_weight max_weight_unit threshold =
     (let ideal = apply_bias_to_com ideal bias_settings;
          max_weight_g = convert_to_grams max_weight max_weight_unit;
          initial_weight = sum_list sensor_ws;
          available_weight = max_weight_g - initial_weight
      in if available_weight \<le> 0 then
           Inr \<lparr>front_tray = [], back_tray = [],
                final_com = optimizer_calculate_com sensor_ws sensor_ps,
                final_disp = optimizer_calculate_displacement
                               (optimizer_calculate_com sensor_ws sensor_ps) ideal,
                total_weight = initial_weight,
                effect_map = (\<lambda>_. [])\<rparr>
         else
           (let original_com = optimizer_calculate_com sensor_ws sensor_ps;
                original_disp = optimizer_calculate_displacement original_com ideal
            in case build_slots general_settings tray_flags of
                 Inl e \<Rightarrow> Inl e
               | Inr (tray_slots, lay, emap) \<Rightarrow>
                   (let candidates = select_candidates sensor_ws sensor_ps ideal original_disp
                                       threshold tray_slots
                    in case place_weights available_weight candidates (lay, emap, 0, []) of
                         Inl e \<Rightarrow> Inl e
                       | Inr (lay, emap, added_weight, used_slots) \<Rightarrow>
                           (case normalize_effect_map emap used_slots of
                              Inl e \<Rightarrow> Inl e
                            | Inr emap \<Rightarrow>
                                (let final_weights =
                                       sensor_ws @ map (\<lambda>_. effect_weight_grams) used_slots;
                                     final_positions =
                                       sensor_ps @ map (\<lambda>s. (slot_x s, slot_y s)) used_slots;
                                     final_com = optimizer_calculate_com final_weights final_positions;
                                     final_disp = optimizer_calculate_displacement final_com ideal;
                                     total_weight = initial_weight + added_weight
                                 in Inr \<lparr>front_tray = lay Front, back_tray = lay Back,
                                         final_com = final_com, final_disp = final_disp,
                                         total_weight = total_weight, effect_map = emap\<rparr>)))))"

section \<open>Notions used in the statements and proofs\<close>

text \<open>The grid cell a slot names, its position, and whether an index pair lies in a grid.\<close>

definition slot_key :: "'a slot_scheme \<Rightarrow> tray_name \<times> nat \<times> nat" where
  "slot_key s = (slot_tray s, slot_row s, slot_col s)"

definition slot_pos :: "'a slot_scheme \<Rightarrow> real \<times> real" where
  "slot_pos s = (slot_x s, slot_y s)"

definition in_grid :: "'a list list \<Rightarrow> nat \<Rightarrow> nat \<Rightarrow> bool" where
  "in_grid grid r c = (r < length grid \<and> c < length (grid ! r))"

definition in_tray :: "'a trays \<Rightarrow> tray_name \<times> nat \<times> nat \<Rightarrow> bool" where
  "in_tray m k = (case k of (tn, r, c) \<Rightarrow> in_grid (m tn) r c)"

definition cell :: "'a trays \<Rightarrow> tray_name \<times> nat \<times> nat \<Rightarrow> 'a" where
  "cell m k = (case k of (tn, r, c) \<Rightarrow> m tn ! r ! c)"

definition write_cell :: "'a trays \<Rightarrow> tray_name \<times> nat \<times> nat \<Rightarrow> 'a \<Rightarrow> 'a trays" where
  "write_cell m k v = (case k of (tn, r, c) \<Rightarrow> m(tn := (m tn)[r := (m tn ! r)[c := v]]))"

text \<open>
  What the slot-building loop establishes: the slots name distinct cells, every slot's
  cell exists in both grids, the two grids have the same shape, and every cell is 0.
\<close>

definition grids_ok :: "'a slot_scheme list \<Rightarrow> int trays \<Rightarrow> real trays \<Rightarrow> bool" where
  "grids_ok slots lay emap =
     (distinct (map slot_key slots) \<and>
      (\<forall>s \<in> set slots. in_tray lay (slot_key s)) \<and>
      (\<forall>k. in_tray emap k = in_tray lay k) \<and>
      (\<forall>k. in_tray lay k \<longrightarrow> cell lay k = 0 \<and> cell emap k = 0))"

text \<open>
  The value \<open>max_improvement\<close> has after the simulation loop: the largest percent over the
  slots, and at least 0.
\<close>

definition best_improvement ::
  "real list \<Rightarrow> (real \<times> real) list \<Rightarrow> real \<times> real \<Rightarrow> real \<Rightarrow> slot list \<Rightarrow> real" where
  "best_improvement sensor_ws sensor_ps ideal original_disp tray_slots =
     snd (simulate_slots sensor_ws sensor_ps ideal original_disp tray_slots ([], 0))"

text \<open>
  The percent a run records for a slot (line 418, written to the effect map at line 457):
  \<open>slot_percent\<close> at the biased ideal COM and the original displacement of the run.
\<close>

definition recorded_percent ::
  "real list \<Rightarrow> (real \<times> real) list \<Rightarrow> real \<times> real \<Rightarrow> (string \<rightharpoonup> real) \<Rightarrow> slot \<Rightarrow> real" where
  "recorded_percent sensor_ws sensor_ps ideal bias_settings sl =
     (let ideal = apply_bias_to_com ideal bias_settings;
          original_com = optimizer_calculate_com sensor_ws sensor_ps;
          original_disp = optimizer_calculate_displacement original_com ideal
      in slot_percent sensor_ws sensor_ps ideal original_disp sl)"

text \<open>The occupancy matrices of a result, by tray.\<close>

definition result_trays :: "layout_result \<Rightarrow> int trays" where
  "result_trays r tn = (case tn of Front \<Rightarrow> front_tray r | Back \<Rightarrow> back_tray r)"

text \<open>The positions of the slots that a configuration enables.\<close>

definition enabled_slot_positions ::
  "(string \<rightharpoonup> tray_settings) \<Rightarrow> (string \<rightharpoonup> bool) \<Rightarrow> (real \<times> real) set" where
  "enabled_slot_positions general_settings tray_flags =
     (case build_slots general_settings tray_flags of
        Inl e \<Rightarrow> {}
      | Inr (tray_slots, lay, emap) \<Rightarrow> set (map slot_pos tray_slots))"

text \<open>Whether a tray's settings hold all six keys.\<close>

definition complete_settings :: "tray_settings \<Rightarrow> bool" where
  "complete_settings tray =
     (rows tray \<noteq> None \<and> columns tray \<noteq> None \<and> y_position tray \<noteq> None \<and>
      cell_width tray \<noteq> None \<and> cell_height tray \<noteq> None \<and> wall_thickness tray \<noteq> None)"

definition settings_key :: "tray_name \<Rightarrow> string" where
  "settings_key tn = (if tn = Front then ''weight_tray1'' else ''weight_tray2'')"

section \<open>Sample inputs\<close>

text \<open>
  A tray of \<open>n_rows \<times> n_cols\<close> cells, each an eighth of a centimetre wide, two centimetres
  up the sled; and the flags that enable the front tray only.
\<close>

definition tray_of :: "int \<Rightarrow> int \<Rightarrow> tray_settings" where
  "tray_of n_rows n_cols =
     \<lparr>rows = Some n_rows, columns = Some n_cols, y_position = Some 2,
      cell_width = Some 0.125, cell_height = Some 0.125, wall_thickness = Some 0\<rparr>"

definition front_only :: "string \<rightharpoonup> bool" where
  "front_only = [''front'' \<mapsto> True]"

text \<open>The state \<open>__init__\<close> builds, and the sled geometry of the end-to-end scenarios.\<close>

definition initial_state :: "sensor_calibration list option \<Rightarrow> weight_distribution" where
  "initial_state cal =
     \<lparr>calibration = cal,
      sensor_weights = [0, 0, 0, 0],
      sensor_positions = [(0, 0), (0, 0), (0, 0), (0, 0)],
      ideal_com = (0, 0),
      actual_com = (0, 0),
      displacement = (0, 0),
      emitted = []\<rparr>"

definition sled_state :: weight_distribution where
  "sled_state = (initial_state None)\<lparr>sensor_positions := [(19, 0), (- 19, 0), (- 19, 26.5), (19, 26.5)],
                                       ideal_com := (0, 13.25)\<rparr>"

section \<open>Properties\<close>

subsection \<open>Unit conversion\<close>

lemma convert_unit_from_g: "convert_unit x ''g'' ''g'' = x"
  by (simp add: convert_unit_def)

lemma round_trip_kg: "convert_unit (convert_unit x ''g'' ''kg'') ''kg'' ''g'' = x"
  by (simp add: convert_unit_def)

lemma round_trip_oz:
  "convert_unit (convert_unit x ''g'' ''oz'') ''oz'' ''g'' = x * (0.03527396195 * 28.3495)"
  by (simp add: convert_unit_def)

lemma round_trip_lb:
  "convert_unit (convert_unit x ''g'' ''lb'') ''lb'' ''g'' = x * (0.00220462262 * 453.592)"
  by (simp add: convert_unit_def)

lemma scaled_close:
  fixes x c :: real
  assumes "\<bar>c - 1\<bar> \<le> e"
  shows "\<bar>x * c - x\<bar> \<le> e * \<bar>x\<bar>"
proof -
  have "x * c - x = x * (c - 1)" by (simp add: algebra_simps)
  then have "\<bar>x * c - x\<bar> = \<bar>x\<bar> * \<bar>c - 1\<bar>" by (simp add: abs_mult)
  also have "\<dots> \<le> \<bar>x\<bar> * e" using assms by (simp add: mult_left_mono)
  finally show ?thesis by (simp add: mult.commute)
qed

text \<open>
  Claim C8. For every value \<open>x\<close> and every unit \<open>U\<close> among g, kg, oz, lb, converting \<open>x\<close>
  from grams to \<open>U\<close> and back to grams gives a value within relative tolerance \<open>10\<^sup>-\<^sup>6\<close>
  of \<open>x\<close>. (The oz and lb factors are not exact inverses: the round trip multiplies by
  about \<open>1 - 8.2 \<times> 10\<^sup>-\<^sup>7\<close>.)
\<close>

theorem convert_unit_round_trip:
  assumes "U \<in> {''g'', ''kg'', ''oz'', ''lb''}"
  shows "\<bar>convert_unit (convert_unit x ''g'' U) U ''g'' - x\<bar> \<le> 1 / 10 ^ 6 * \<bar>x\<bar>"
proof -
  consider "U = ''g''" | "U = ''kg''" | "U = ''oz''" | "U = ''lb''"
    using assms by auto
  then show ?thesis
  proof cases
    case 1
    then show ?thesis by (simp add: convert_unit_from_g)
  next
    case 2
    then show ?thesis by (simp add: round_trip_kg)
  next
    case 3
    have "\<bar>0.03527396195 * 28.3495 - (1::real)\<bar> \<le> 1 / 10 ^ 6" by simp
    then show ?thesis unfolding 3 round_trip_oz by (rule scaled_close)
  next
    case 4
    have "\<bar>0.00220462262 * 453.592 - (1::real)\<bar> \<le> 1 / 10 ^ 6" by simp
    then show ?thesis unfolding 4 round_trip_lb by (rule scaled_close)
  qed
qed

theorem convert_unit_round_trip_witness:
  "''oz'' \<in> {''g'', ''kg'', ''oz'', ''lb''} \<and>
   \<bar>convert_unit (convert_unit 100 ''g'' ''oz'') ''oz'' ''g'' - 100\<bar> \<le> 1 / 10 ^ 6 * \<bar>100::real\<bar>"
  using convert_unit_round_trip [of "''oz''" 100] by simp

subsection \<open>View transform\<close>

lemma transform_point_view_y:
  "snd (transform_point (x, y) scale offset_x offset_y min_x min_y) = offset_y + y * scale"
  by (simp add: transform_point_def Let_def algebra_simps)

text \<open>
  Claim C2. The claim asks for the vertical component
  \<open>offset_y + (2 * min_y - y) * scale\<close>, a reflection about \<open>min_y\<close>. The source multiplies
  the inner difference by \<open>-1\<close>, which cancels the reflection: at the point \<open>(0, 1)\<close> with
  scale 1, both offsets 0 and \<open>min_x = min_y = 0\<close> the function returns the vertical
  component 1, where the claimed formula gives \<open>-1\<close>.
\<close>

theorem transform_point_not_flipped:
  "snd (transform_point (0, 1) 1 0 0 0 0) = 1 \<and>
   snd (transform_point (0, 1) 1 0 0 0 0) \<noteq> 0 + (2 * 0 - 1) * 1"
  by (simp add: transform_point_def)

subsection \<open>Sensor data and centre of mass\<close>


lemma calculate_displacement_fields:
  "sensor_weights (calculate_displacement s) = sensor_weights s"
  "sensor_positions (calculate_displacement s) = sensor_positions s"
  "actual_com (calculate_displacement s) = actual_com s"
  "ideal_com (calculate_displacement s) = ideal_com s"
  "displacement (calculate_displacement s) =
     (fst (actual_com s) - fst (ideal_com s), snd (actual_com s) - snd (ideal_com s))"
  by (simp_all add: calculate_displacement_def Let_def)

lemma calculate_com_keeps:
  "sensor_weights (calculate_com s) = sensor_weights s"
  "sensor_positions (calculate_com s) = sensor_positions s"
  "ideal_com (calculate_com s) = ideal_com s"
  by (simp_all add: calculate_com_def Let_def calculate_displacement_fields)

lemma calculate_com_zero_total:
  assumes "sum_list (sensor_weights s) \<le> 0" and "sensor_positions s \<noteq> []"
  shows "actual_com (calculate_com s) =
           (sum_list (map fst (sensor_positions s)) / real (length (sensor_positions s)),
            sum_list (map snd (sensor_positions s)) / real (length (sensor_positions s)))"
  using assms by (simp add: calculate_com_def Let_def calculate_displacement_fields)

lemma calculate_com_positive_total:
  assumes "0 < sum_list (sensor_weights s)"
  shows "actual_com (calculate_com s) =
           ((\<Sum>(w, p) \<leftarrow> zip (sensor_weights s) (sensor_positions s). w * fst p)
              / sum_list (sensor_weights s),
            (\<Sum>(w, p) \<leftarrow> zip (sensor_weights s) (sensor_positions s). w * snd p)
              / sum_list (sensor_weights s))"
  using assms by (simp add: calculate_com_def Let_def calculate_displacement_fields)

lemma calculate_com_displacement:
  assumes "sensor_positions s \<noteq> [] \<or> 0 < sum_list (sensor_weights s)"
  shows "displacement (calculate_com s) =
           (fst (actual_com (calculate_com s)) - fst (ideal_com s),
            snd (actual_com (calculate_com s)) - snd (ideal_com s))"
  using assms by (auto simp add: calculate_com_def Let_def calculate_displacement_fields)

lemma zip_sum_first_four:
  fixes f :: "real \<Rightarrow> (real \<times> real) \<Rightarrow> real"
  assumes "length ps = 4" and "4 \<le> length ws"
  shows "(\<Sum>(w, p) \<leftarrow> zip ws ps. f w p) = (\<Sum>i<4. f (ws ! i) (ps ! i))"
proof -
  have "zip ws ps = map (\<lambda>i. (ws ! i, ps ! i)) [0..<4]"
    using assms by (intro nth_equalityI) auto
  then have "(\<Sum>(w, p) \<leftarrow> zip ws ps. f w p) = (\<Sum>i\<leftarrow>[0..<4]. f (ws ! i) (ps ! i))"
    by (simp add: comp_def)
  also have "\<dots> = (\<Sum>i<4. f (ws ! i) (ps ! i))"
    by (simp add: sum_list_sum_nth lessThan_atLeast0)
  finally show ?thesis .
qed


lemma length_apply_from: "length (apply_from cals unit i vals) = length vals"
  by (induction vals arbitrary: i) (simp_all add: Let_def)

lemma length_calibrated_values: "length (calibrated_values s vals pre) = length vals"
  by (simp add: calibrated_values_def apply_calibration_def length_apply_from split: option.splits)

lemma update_sensor_data_tared:
  assumes "4 \<le> length vals" and "4 \<le> length tares"
  shows "sensor_weights (update_sensor_data s vals (Some tares) pre) =
           map (\<lambda>(cal, tare). max 0 (cal - tare)) (zip (calibrated_values s vals pre) tares)"
  using assms by (auto simp add: update_sensor_data_def Let_def calculate_com_keeps)

lemma update_sensor_data_untared:
  assumes "4 \<le> length vals"
  shows "sensor_weights (update_sensor_data s vals None pre) =
           map (\<lambda>val. if pre then \<bar>val\<bar> else max 0 val) (calibrated_values s vals pre)"
  using assms by (simp add: update_sensor_data_def Let_def calculate_com_keeps)

text \<open>
  Claim C5. With at least four values: when a tare list of length at least 4 is given, the
  stored weights pair the calibrated values with the tares (as \<open>zip\<close> does) and each
  stored weight is \<open>max 0 (calibrated\<^sub>i - tare\<^sub>i)\<close>; when no tare is given, every
  calibrated value is stored, as its absolute value if \<open>pre_calibrated\<close> and as
  \<open>max 0 calibrated\<^sub>i\<close> otherwise.
\<close>

theorem update_sensor_data_weights:
  assumes "4 \<le> length vals"
  shows "(\<forall>tares. 4 \<le> length tares \<longrightarrow>
            (let stored = sensor_weights (update_sensor_data s vals (Some tares) pre_calibrated);
                 calibrated = calibrated_values s vals pre_calibrated
             in length stored = min (length vals) (length tares) \<and>
                (\<forall>i < length stored. stored ! i = max 0 (calibrated ! i - tares ! i))))
       \<and> (let stored = sensor_weights (update_sensor_data s vals None pre_calibrated);
               calibrated = calibrated_values s vals pre_calibrated
           in length stored = length vals \<and>
              (\<forall>i < length vals.
                 stored ! i = (if pre_calibrated then \<bar>calibrated ! i\<bar> else max 0 (calibrated ! i))))"
proof (intro conjI allI impI)
  fix tares :: "real list"
  assume "4 \<le> length tares"
  then show "let stored = sensor_weights (update_sensor_data s vals (Some tares) pre_calibrated);
                 calibrated = calibrated_values s vals pre_calibrated
             in length stored = min (length vals) (length tares) \<and>
                (\<forall>i < length stored. stored ! i = max 0 (calibrated ! i - tares ! i))"
    using assms by (simp add: update_sensor_data_tared length_calibrated_values Let_def)
next
  show "let stored = sensor_weights (update_sensor_data s vals None pre_calibrated);
            calibrated = calibrated_values s vals pre_calibrated
        in length stored = length vals \<and>
           (\<forall>i < length vals.
              stored ! i = (if pre_calibrated then \<bar>calibrated ! i\<bar> else max 0 (calibrated ! i)))"
    using assms by (simp add: update_sensor_data_untared length_calibrated_values Let_def)
qed

text \<open>
  Claim C7. \<open>calculate_com\<close>: when the total weight is at most 0 and there is at least one
  sensor position, the actual COM becomes the unweighted mean of the positions; when the
  total is positive it becomes the weighted sums over the paired weights and positions
  divided by the total. In both cases the COM signal is emitted and the displacement
  (actual minus ideal, by component) is recomputed and emitted after it.
\<close>

theorem calculate_com_centroid:
  "(sum_list (sensor_weights s) \<le> 0 \<and> sensor_positions s \<noteq> [] \<longrightarrow>
      (let s' = calculate_com s; n = real (length (sensor_positions s));
           c = (sum_list (map fst (sensor_positions s)) / n,
                sum_list (map snd (sensor_positions s)) / n);
           d = (fst c - fst (ideal_com s), snd c - snd (ideal_com s))
       in actual_com s' = c \<and> displacement s' = d \<and>
          emitted s' = emitted s @ [ComCalculated c, DisplacementCalculated d]))
   \<and> (0 < sum_list (sensor_weights s) \<longrightarrow>
      (let s' = calculate_com s; total = sum_list (sensor_weights s);
           c = ((\<Sum>(w, p) \<leftarrow> zip (sensor_weights s) (sensor_positions s). w * fst p) / total,
                (\<Sum>(w, p) \<leftarrow> zip (sensor_weights s) (sensor_positions s). w * snd p) / total);
           d = (fst c - fst (ideal_com s), snd c - snd (ideal_com s))
       in actual_com s' = c \<and> displacement s' = d \<and>
          emitted s' = emitted s @ [ComCalculated c, DisplacementCalculated d]))"
  by (simp add: calculate_com_def calculate_displacement_def Let_def)


lemma untared_weights_nonneg:
  assumes "4 \<le> length vals"
  shows "\<forall>x \<in> set (sensor_weights (update_sensor_data s vals None pre)). 0 \<le> x"
  using assms by (auto simp add: update_sensor_data_untared)

lemma update_sensor_data_is_calculate_com:
  assumes "4 \<le> length vals"
  shows "update_sensor_data s vals None pre =
           calculate_com (s\<lparr>sensor_weights := sensor_weights (update_sensor_data s vals None pre)\<rparr>)"
  using assms by (simp add: update_sensor_data_def Let_def calculate_com_keeps)

lemma com_of_first_four:
  assumes "length ps = 4" and "4 \<le> length ws" and "0 < sum_list ws"
    and "sensor_weights t = ws" and "sensor_positions t = ps"
  shows "actual_com (calculate_com t) =
           ((\<Sum>i<4. ws ! i * fst (ps ! i)) / sum_list ws,
            (\<Sum>i<4. ws ! i * snd (ps ! i)) / sum_list ws)"
  using assms
  by (simp add: calculate_com_positive_total
      zip_sum_first_four [where f = "\<lambda>w p. w * fst p"]
      zip_sum_first_four [where f = "\<lambda>w p. w * snd p"])

text \<open>
  Claim C10. With more than four values, no tare and four sensor positions, all the
  processed values are stored. The COM then sums weight times position over the first four
  entries only and divides by the total of all stored weights. Compared with the COM of
  the first four weights alone it is scaled by \<open>first4 / total\<close>, a factor in \<open>(0, 1]\<close>
  that is below 1 as soon as the surplus weights have a positive sum.
\<close>

theorem surplus_values_dilute_com:
  assumes "4 < length vals" and "length (sensor_positions s) = 4"
  shows "(let s' = update_sensor_data s vals None pre_calibrated;
              w = sensor_weights s'; p = sensor_positions s;
              total = sum_list w; first4 = sum_list (take 4 w);
              c4 = actual_com (calculate_com (s\<lparr>sensor_weights := take 4 w\<rparr>))
          in length w = length vals \<and>
             (0 < total \<longrightarrow>
                actual_com s' = ((\<Sum>i<4. w ! i * fst (p ! i)) / total,
                                 (\<Sum>i<4. w ! i * snd (p ! i)) / total)) \<and>
             (0 < first4 \<longrightarrow>
                c4 = ((\<Sum>i<4. w ! i * fst (p ! i)) / first4,
                      (\<Sum>i<4. w ! i * snd (p ! i)) / first4) \<and>
                actual_com s' = (first4 / total * fst c4, first4 / total * snd c4) \<and>
                0 < first4 / total \<and> first4 / total \<le> 1 \<and>
                (0 < sum_list (drop 4 w) \<longrightarrow> first4 / total < 1)))"
proof -
  define s' where "s' = update_sensor_data s vals None pre_calibrated"
  define w where "w = sensor_weights s'"
  define p where "p = sensor_positions s"
  define total where "total = sum_list w"
  define first4 where "first4 = sum_list (take 4 w)"
  define c4 where "c4 = actual_com (calculate_com (s\<lparr>sensor_weights := take 4 w\<rparr>))"
  have vals4: "4 \<le> length vals" using assms(1) by simp
  have len: "length w = length vals"
    unfolding w_def s'_def
    by (simp add: update_sensor_data_untared [OF vals4] length_calibrated_values)
  have s'_eq: "s' = calculate_com (s\<lparr>sensor_weights := w\<rparr>)"
    unfolding w_def s'_def by (rule update_sensor_data_is_calculate_com [OF vals4])
  have lenp: "length p = 4" using assms(2) by (simp add: p_def)
  have com_all: "actual_com s' = ((\<Sum>i<4. w ! i * fst (p ! i)) / total,
                                  (\<Sum>i<4. w ! i * snd (p ! i)) / total)" if "0 < total"
    unfolding s'_eq total_def
    by (rule com_of_first_four [OF lenp]) (use that len vals4 in \<open>simp_all add: total_def p_def\<close>)
  have nonneg: "\<forall>x \<in> set w. 0 \<le> x"
    unfolding w_def s'_def by (rule untared_weights_nonneg [OF vals4])
  have "set (drop 4 w) \<subseteq> set w" by (rule set_drop_subset)
  then have rest_nonneg: "0 \<le> sum_list (drop 4 w)"
    using nonneg by (intro sum_list_nonneg) auto
  have split: "total = first4 + sum_list (drop 4 w)"
    unfolding total_def first4_def by (simp flip: sum_list_append)
  have take_nth: "(\<Sum>i<4. take 4 w ! i * f i) = (\<Sum>i<4. w ! i * f i)" for f :: "nat \<Rightarrow> real"
    by (rule sum.cong) simp_all
  have com_4: "c4 = ((\<Sum>i<4. w ! i * fst (p ! i)) / first4,
                     (\<Sum>i<4. w ! i * snd (p ! i)) / first4)" if "0 < first4"
  proof -
    have "c4 = ((\<Sum>i<4. take 4 w ! i * fst (p ! i)) / sum_list (take 4 w),
                (\<Sum>i<4. take 4 w ! i * snd (p ! i)) / sum_list (take 4 w))"
      unfolding c4_def
      by (rule com_of_first_four [OF lenp])
         (use that len vals4 in \<open>simp_all add: first4_def p_def\<close>)
    then show ?thesis by (simp add: take_nth first4_def)
  qed
  have shrink: "actual_com s' = (first4 / total * fst c4, first4 / total * snd c4) \<and>
                0 < first4 / total \<and> first4 / total \<le> 1 \<and>
                (0 < sum_list (drop 4 w) \<longrightarrow> first4 / total < 1)" if pos: "0 < first4"
  proof -
    have tpos: "0 < total" using pos rest_nonneg split by linarith
    have "first4 \<le> total" using rest_nonneg split by linarith
    moreover have "first4 < total" if "0 < sum_list (drop 4 w)" using that split by linarith
    ultimately show ?thesis
      using tpos pos by (simp add: com_all [OF tpos] com_4 [OF pos])
  qed
  show ?thesis
    using len com_all com_4 shrink
    unfolding Let_def s'_def [symmetric] w_def [symmetric] p_def [symmetric]
      total_def [symmetric] first4_def [symmetric] c4_def [symmetric]
    by blast
qed


theorem update_sensor_data_weights_witness:
  "4 \<le> length [5, - 2, 3, 4 :: real] \<and> 4 \<le> length [1, 1, 1, 10 :: real] \<and>
   sensor_weights (update_sensor_data sled_state [5, - 2, 3, 4] (Some [1, 1, 1, 10]) True)
     = [4, 0, 2, 0] \<and>
   sensor_weights (update_sensor_data sled_state [5, - 2, 3, 4] None True) = [5, 2, 3, 4] \<and>
   sensor_weights (update_sensor_data sled_state [5, - 2, 3, 4] None False) = [5, 0, 3, 4]"
proof -
  have four: "4 \<le> length [5, - 2, 3, 4 :: real]" by simp
  have all4: "(\<forall>i<4. P i) \<longleftrightarrow> P 0 \<and> P 1 \<and> P 2 \<and> P (3::nat)" for P
    by (auto simp add: numeral_eq_Suc less_Suc_eq)
  have nth4: "length xs = 4 \<Longrightarrow> xs = [xs ! 0, xs ! 1, xs ! 2, xs ! 3]" for xs :: "real list"
    by (auto simp add: numeral_eq_Suc length_Suc_conv)
  note inst = update_sensor_data_weights [OF four, of sled_state]
  have tared: "sensor_weights (update_sensor_data sled_state [5, - 2, 3, 4] (Some [1, 1, 1, 10]) True)
                 = [4, 0, 2, 0]"
    using inst [of True, THEN conjunct1, rule_format, of "[1, 1, 1, 10]"]
    by (subst nth4) (simp_all add: Let_def all4 calibrated_values_def)
  have folded: "sensor_weights (update_sensor_data sled_state [5, - 2, 3, 4] None True) = [5, 2, 3, 4]"
    using inst [of True, THEN conjunct2]
    by (subst nth4) (simp_all add: Let_def all4 calibrated_values_def)
  have clamped: "sensor_weights (update_sensor_data sled_state [5, - 2, 3, 4] None False) = [5, 0, 3, 4]"
    using inst [of False, THEN conjunct2]
    by (subst nth4)
       (simp_all add: Let_def all4 calibrated_values_def sled_state_def initial_state_def)
  show ?thesis using tared folded clamped by simp
qed

theorem calculate_com_centroid_witness:
  "sum_list (sensor_weights sled_state) \<le> 0 \<and> sensor_positions sled_state \<noteq> [] \<and>
   actual_com (calculate_com sled_state) = (0, 13.25) \<and>
   displacement (calculate_com sled_state) = (0, 0) \<and>
   0 < sum_list (sensor_weights (sled_state\<lparr>sensor_weights := [15, 5, 5, 10]\<rparr>)) \<and>
   actual_com (calculate_com (sled_state\<lparr>sensor_weights := [15, 5, 5, 10]\<rparr>)) = (57 / 7, 159 / 14)"
  using calculate_com_centroid [of sled_state]
    calculate_com_centroid [of "sled_state\<lparr>sensor_weights := [15, 5, 5, 10]\<rparr>"]
  by (simp add: sled_state_def initial_state_def Let_def)

theorem surplus_values_dilute_com_witness:
  "4 < length [10, 10, 10, 10, 40 :: real] \<and> length (sensor_positions sled_state) = 4 \<and>
   sensor_weights (update_sensor_data sled_state [10, 10, 10, 10, 40] None True) = [10, 10, 10, 10, 40] \<and>
   actual_com (update_sensor_data sled_state [10, 10, 10, 10, 40] None True) = (0, 6.625) \<and>
   actual_com (calculate_com (sled_state\<lparr>sensor_weights := [10, 10, 10, 10]\<rparr>)) = (0, 13.25)"
  using surplus_values_dilute_com [of "[10, 10, 10, 10, 40]" sled_state True]
  by (simp add: sled_state_def initial_state_def Let_def update_sensor_data_def
      calibrated_values_def calculate_com_def calculate_displacement_def)

subsection \<open>Tray optimizer: budget\<close>



text \<open>
  Claim C4. When the available weight (limit in grams minus the sum of the sensor weights)
  is at most 0, the function returns at once: empty front and back trays, empty effect
  maps, the initial weight as total weight, and the COM and displacement of the unchanged
  sensor weights and positions.
\<close>

theorem no_budget_returns_current_state:
  assumes "convert_to_grams max_weight max_weight_unit - sum_list sensor_ws \<le> 0"
  shows "compute_optimal_tray_layout sensor_ws sensor_ps ideal bias_settings general_settings
           tray_flags max_weight max_weight_unit threshold =
         Inr \<lparr>front_tray = [], back_tray = [],
              final_com = optimizer_calculate_com sensor_ws sensor_ps,
              final_disp = optimizer_calculate_displacement
                             (optimizer_calculate_com sensor_ws sensor_ps)
                             (apply_bias_to_com ideal bias_settings),
              total_weight = sum_list sensor_ws,
              effect_map = (\<lambda>_. [])\<rparr>"
  using assms by (simp add: compute_optimal_tray_layout_def Let_def)



subsection \<open>Tray optimizer: sample runs\<close>

text \<open>
  Runs on small trays, evaluated step by step. In all of them the displacements lie along
  one axis, where the square root is an absolute value.
\<close>

lemma displacement_same_y: "optimizer_calculate_displacement (a, b) (c, b) = \<bar>a - c\<bar>"
  by (simp add: optimizer_calculate_displacement_def)

lemma displacement_same_x: "optimizer_calculate_displacement (a, b) (a, d) = \<bar>b - d\<bar>"
  by (simp add: optimizer_calculate_displacement_def)

lemma upt_1 [simp]: "[0..<1] = [0]" by (simp add: upt_rec)
lemma upt_3: "[0..<3] = [0, 1, 2]" by (simp add: upt_rec)
lemma replicate_3: "replicate 3 v = [v, v, v]" by (simp add: numeral_eq_Suc)

lemma build_1x1:
  "build_slots [''weight_tray1'' \<mapsto> tray_of 1 1] front_only =
     Inr ([\<lparr>slot_tray = Front, slot_row = 0, slot_col = 0, slot_x = 0, slot_y = 2\<rparr>],
          (\<lambda>_. [])(Front := [[0]]), (\<lambda>_. [])(Front := [[0]]))"
  by (simp add: build_slots_def build_tray_def front_only_def tray_key_def get_or_def lookup_def
      tray_of_def grid_slots_def Let_def)

lemma build_1x3:
  "build_slots [''weight_tray1'' \<mapsto> tray_of 1 3] front_only =
     Inr ([\<lparr>slot_tray = Front, slot_row = 0, slot_col = 0, slot_x = - (1 / 8), slot_y = 2\<rparr>,
           \<lparr>slot_tray = Front, slot_row = 0, slot_col = 1, slot_x = 0, slot_y = 2\<rparr>,
           \<lparr>slot_tray = Front, slot_row = 0, slot_col = 2, slot_x = 1 / 8, slot_y = 2\<rparr>],
          (\<lambda>_. [])(Front := [[0, 0, 0]]), (\<lambda>_. [])(Front := [[0, 0, 0]]))"
  by (simp add: build_slots_def build_tray_def front_only_def tray_key_def get_or_def lookup_def
      tray_of_def grid_slots_def upt_3 Let_def replicate_3)

lemma layout_1x1:
  "compute_optimal_tray_layout [113] [(0, 0)] (0, 1) Map.empty [''weight_tray1'' \<mapsto> tray_of 1 1]
     front_only 452 ''g'' None =
   Inr \<lparr>front_tray = [[1]], back_tray = [], final_com = (0, 1), final_disp = 0,
        total_weight = 226, effect_map = (\<lambda>_. [])(Front := [[1]])\<rparr>"
  by (simp add: compute_optimal_tray_layout_def Let_def build_1x1 convert_to_grams_def
      convert_unit_def apply_bias_to_com_def get_or_def optimizer_calculate_com_def
      displacement_same_x displacement_same_y slot_percent_def effect_weight_grams_def
      with_percent_def select_candidates_def sort_candidates_def apply_threshold_def set_cell_def get_cell_def
      normalize_effect_map_def)

lemma layout_1x3:
  "compute_optimal_tray_layout [113] [(0, 0)] (0, 1) Map.empty [''weight_tray1'' \<mapsto> tray_of 1 3]
     front_only 452 ''g'' None =
   Inr \<lparr>front_tray = [[1, 1, 1]], back_tray = [], final_com = (0, 3 / 2), final_disp = 1 / 2,
        total_weight = 452, effect_map = (\<lambda>_. [])(Front := [[15 / 16, 1, 15 / 16]])\<rparr>"
  by (simp add: compute_optimal_tray_layout_def Let_def build_1x3 convert_to_grams_def
      convert_unit_def apply_bias_to_com_def get_or_def optimizer_calculate_com_def
      displacement_same_x displacement_same_y slot_percent_def effect_weight_grams_def
      with_percent_def select_candidates_def sort_candidates_def apply_threshold_def set_cell_def get_cell_def
      normalize_effect_map_def)


lemma positions_1x1:
  "enabled_slot_positions [''weight_tray1'' \<mapsto> tray_of 1 1] front_only = {(0, 2)}"
  by (simp add: enabled_slot_positions_def build_1x1 slot_pos_def)

lemma positions_1x3:
  "enabled_slot_positions [''weight_tray1'' \<mapsto> tray_of 1 3] front_only =
     {(- (1 / 8), 2), (0, 2), (1 / 8, 2)}"
  by (simp add: enabled_slot_positions_def build_1x3 slot_pos_def)


theorem no_budget_returns_current_state_witness:
  "convert_to_grams 0.1 ''kg'' - sum_list [60, 40] \<le> 0 \<and>
   compute_optimal_tray_layout [60, 40] [(1, 0), (3, 0)] (0, 0) Map.empty
     [''weight_tray1'' \<mapsto> tray_of 2 2] front_only 0.1 ''kg'' None =
   Inr \<lparr>front_tray = [], back_tray = [], final_com = (9 / 5, 0), final_disp = 9 / 5,
        total_weight = 100, effect_map = (\<lambda>_. [])\<rparr>"
  using no_budget_returns_current_state [of "0.1" "''kg''" "[60, 40]" "[(1, 0), (3, 0)]" "(0, 0)"
      Map.empty "[''weight_tray1'' \<mapsto> tray_of 2 2]" front_only None]
  by (simp add: convert_to_grams_def convert_unit_def optimizer_calculate_com_def
      apply_bias_to_com_def get_or_def displacement_same_y)

subsection \<open>Tray optimizer: grids, candidates and the effect map\<close>

lemma nth_nested_update:
  "xss[r := (xss ! r)[c := v]] ! r' =
     (if r' = r \<and> r < length xss then (xss ! r)[c := v] else xss ! r')"
  by (cases "r < length xss") (simp_all add: nth_list_update list_update_beyond)

lemma in_tray_write_cell: "in_tray (write_cell m k v) k' = in_tray m k'"
  by (cases k; cases k')
     (simp add: in_tray_def in_grid_def write_cell_def nth_nested_update)

lemma cell_write_cell_same: "in_tray m k \<Longrightarrow> cell (write_cell m k v) k = v"
  by (cases k) (simp add: in_tray_def in_grid_def write_cell_def cell_def)

lemma cell_write_cell_other: "k' \<noteq> k \<Longrightarrow> cell (write_cell m k v) k' = cell m k'"
  by (cases k; cases k') (auto simp add: write_cell_def cell_def nth_nested_update)

lemma set_cell_in_tray:
  assumes "in_tray m (slot_key s)"
  shows "set_cell (m (slot_tray s)) (slot_row s) (slot_col s) v =
           Inr (write_cell m (slot_key s) v (slot_tray s))"
  using assms by (simp add: set_cell_def in_tray_def in_grid_def slot_key_def write_cell_def)

lemma set_cell_not_in_tray:
  assumes "\<not> in_tray m (slot_key s)"
  shows "set_cell (m (slot_tray s)) (slot_row s) (slot_col s) v = Inl IndexError"
  using assms by (simp add: set_cell_def in_tray_def in_grid_def slot_key_def)

lemma write_cell_fun_upd:
  "m(slot_tray s := write_cell m (slot_key s) v (slot_tray s)) = write_cell m (slot_key s) v"
  by (simp add: write_cell_def slot_key_def)

lemma get_cell_in_tray:
  assumes "in_tray m (slot_key s)"
  shows "get_cell (m (slot_tray s)) (slot_row s) (slot_col s) = Inr (cell m (slot_key s))"
  using assms by (simp add: get_cell_def in_tray_def in_grid_def slot_key_def cell_def)

text \<open>A run of writes, one per slot of a list.\<close>

lemma in_tray_fold_write:
  "in_tray (fold (\<lambda>s m. write_cell m (slot_key s) (f s)) xs m) k = in_tray m k"
  by (induction xs arbitrary: m) (simp_all add: in_tray_write_cell)

lemma cell_fold_write_other:
  assumes "k \<notin> slot_key ` set xs"
  shows "cell (fold (\<lambda>s m. write_cell m (slot_key s) (f s)) xs m) k = cell m k"
  using assms by (induction xs arbitrary: m) (simp_all add: cell_write_cell_other)

lemma cell_fold_write_in:
  assumes "distinct (map slot_key xs)" and "s \<in> set xs" and "in_tray m (slot_key s)"
  shows "cell (fold (\<lambda>s m. write_cell m (slot_key s) (f s)) xs m) (slot_key s) = f s"
  using assms
proof (induction xs arbitrary: m)
  case Nil
  then show ?case by simp
next
  case (Cons x xs)
  show ?case
  proof (cases "s \<in> set xs")
    case True
    then show ?thesis using Cons by (simp add: in_tray_write_cell)
  next
    case False
    then have sx: "s = x" using Cons.prems(2) by simp
    have "slot_key x \<notin> slot_key ` set xs" using Cons.prems(1) by simp
    then show ?thesis
      using Cons.prems(3) by (simp add: sx cell_fold_write_other cell_write_cell_same)
  qed
qed

text \<open>The greedy loop places a prefix of the candidates.\<close>

lemma place_weights_in_range:
  assumes "\<forall>s \<in> set cs. in_tray lay (slot_key s) \<and> in_tray em (slot_key s)"
  shows "\<exists>k \<le> length cs.
           place_weights av cs (lay, em, added, used) =
             Inr (fold (\<lambda>s m. write_cell m (slot_key s) 1) (take k cs) lay,
                  fold (\<lambda>s m. write_cell m (slot_key s) (percent_improvement s)) (take k cs) em,
                  added + effect_weight_grams * real k, used @ take k cs)"
  using assms
proof (induction cs arbitrary: lay em added used)
  case Nil
  then show ?case by simp
next
  case (Cons c cs)
  show ?case
  proof (cases "added + effect_weight_grams > av")
    case True
    then show ?thesis by (intro exI [of _ 0]) simp
  next
    case False
    let ?lay = "write_cell lay (slot_key c) 1"
    let ?em = "write_cell em (slot_key c) (percent_improvement c)"
    have "\<forall>s \<in> set cs. in_tray ?lay (slot_key s) \<and> in_tray ?em (slot_key s)"
      using Cons.prems by (simp add: in_tray_write_cell)
    from Cons.IH [OF this, of "added + effect_weight_grams" "used @ [c]"]
    obtain k where k: "k \<le> length cs"
      "place_weights av cs (?lay, ?em, added + effect_weight_grams, used @ [c]) =
         Inr (fold (\<lambda>s m. write_cell m (slot_key s) 1) (take k cs) ?lay,
              fold (\<lambda>s m. write_cell m (slot_key s) (percent_improvement s)) (take k cs) ?em,
              added + effect_weight_grams + effect_weight_grams * real k,
              (used @ [c]) @ take k cs)"
      by blast
    have c_in: "in_tray lay (slot_key c)" "in_tray em (slot_key c)"
      using Cons.prems by simp_all
    show ?thesis
      using False k
      by (intro exI [of _ "Suc k"])
         (simp add: set_cell_in_tray [OF c_in(1)] set_cell_in_tray [OF c_in(2)]
            write_cell_fun_upd algebra_simps)
  qed
qed

text \<open>Reading and dividing the effects of the used slots.\<close>

lemma used_effects_of_in_range:
  assumes "\<forall>s \<in> set used. in_tray em (slot_key s)"
  shows "used_effects_of em used = Inr (map (\<lambda>s. cell em (slot_key s)) used)"
  using assms by (induction used) (simp_all add: get_cell_in_tray)

lemma divide_used_in_range:
  assumes "\<forall>s \<in> set used. in_tray em (slot_key s)" and "distinct (map slot_key used)"
  shows "\<exists>em'. divide_used mx used em = Inr em' \<and>
           (\<forall>k. in_tray em' k = in_tray em k) \<and>
           (\<forall>k. cell em' k = (if k \<in> slot_key ` set used \<and> cell em k > 0
                                then cell em k / mx else cell em k))"
  using assms
proof (induction used arbitrary: em)
  case Nil
  then show ?case by simp
next
  case (Cons c cs)
  have c_in: "in_tray em (slot_key c)" using Cons.prems(1) by simp
  have c_new: "slot_key c \<notin> slot_key ` set cs" using Cons.prems(2) by simp
  have dist: "distinct (map slot_key cs)" using Cons.prems(2) by simp
  show ?case
  proof (cases "cell em (slot_key c) > 0")
    case True
    let ?em = "write_cell em (slot_key c) (cell em (slot_key c) / mx)"
    have "\<forall>s \<in> set cs. in_tray ?em (slot_key s)"
      using Cons.prems(1) by (simp add: in_tray_write_cell)
    from Cons.IH [OF this dist] obtain em' where em':
      "divide_used mx cs ?em = Inr em'"
      "\<forall>k. in_tray em' k = in_tray ?em k"
      "\<forall>k. cell em' k = (if k \<in> slot_key ` set cs \<and> cell ?em k > 0
                            then cell ?em k / mx else cell ?em k)"
      by blast
    have run: "divide_used mx (c # cs) em = Inr em'"
      using True em'(1)
      by (simp add: get_cell_in_tray [OF c_in] set_cell_in_tray [OF c_in] write_cell_fun_upd)
    have vals: "cell em' k = (if k \<in> slot_key ` set (c # cs) \<and> cell em k > 0
                              then cell em k / mx else cell em k)" for k
    proof (cases "k = slot_key c")
      case True
      then show ?thesis
        using em'(3) [rule_format, of "slot_key c"] c_new c_in \<open>cell em (slot_key c) > 0\<close>
        by (simp add: cell_write_cell_same)
    next
      case False
      then show ?thesis using em'(3) [rule_format, of k] by (simp add: cell_write_cell_other)
    qed
    show ?thesis using run em'(2) vals by (simp add: in_tray_write_cell)
  next
    case False
    have "\<forall>s \<in> set cs. in_tray em (slot_key s)" using Cons.prems(1) by simp
    from Cons.IH [OF this dist] obtain em' where em':
      "divide_used mx cs em = Inr em'"
      "\<forall>k. in_tray em' k = in_tray em k"
      "\<forall>k. cell em' k = (if k \<in> slot_key ` set cs \<and> cell em k > 0
                            then cell em k / mx else cell em k)"
      by blast
    have run: "divide_used mx (c # cs) em = Inr em'"
      using False em'(1) by (simp add: get_cell_in_tray [OF c_in])
    have vals: "cell em' k = (if k \<in> slot_key ` set (c # cs) \<and> cell em k > 0
                              then cell em k / mx else cell em k)" for k
      using em'(3) [rule_format, of k] False by (cases "k = slot_key c") simp_all
    show ?thesis using run em'(2) vals by simp
  qed
qed


text \<open>The slots of one tray and the grids built for it.\<close>

lemma grid_slots_keys:
  "map slot_key (grid_slots tn n_rows n_cols y_center cell_w cell_h wall) =
     map (\<lambda>(r, c). (tn, r, c)) (List.product [0..<nat n_rows] [0..<nat n_cols])"
  by (simp add: grid_slots_def product_concat_map map_concat comp_def slot_key_def Let_def)

lemma distinct_grid_slots:
  "distinct (map slot_key (grid_slots tn n_rows n_cols y_center cell_w cell_h wall))"
  unfolding grid_slots_keys
  by (simp add: distinct_map distinct_product inj_on_def)

lemma grid_slots_in_range:
  assumes "s \<in> set (grid_slots tn n_rows n_cols y_center cell_w cell_h wall)"
  shows "slot_tray s = tn \<and> slot_row s < nat n_rows \<and> slot_col s < nat n_cols"
proof -
  have "slot_key s \<in> set (map slot_key (grid_slots tn n_rows n_cols y_center cell_w cell_h wall))"
    using assms by simp
  then show ?thesis
    unfolding grid_slots_keys by (auto simp add: slot_key_def)
qed

lemma in_grid_replicate:
  "in_grid (replicate m (replicate n v)) r c \<longleftrightarrow> r < m \<and> c < n"
  by (auto simp add: in_grid_def)

lemma build_tray_result:
  assumes "build_tray general_settings tray_flags tn (slots, lay, em) = Inr (slots', lay', em')"
  shows "(slots', lay', em') = (slots, lay, em) \<or>
         (\<exists>n_rows n_cols y_center cell_w cell_h wall.
            slots' = slots @ grid_slots tn n_rows n_cols y_center cell_w cell_h wall \<and>
            lay' = lay(tn := replicate (nat n_rows) (replicate (nat n_cols) 0)) \<and>
            em' = em(tn := replicate (nat n_rows) (replicate (nat n_cols) 0)))"
  using assms
  by (simp add: build_tray_def Let_def split: if_splits sum.splits) blast+

lemma build_tray_grids_ok:
  assumes built: "build_tray general_settings tray_flags tn (slots, lay, em) = Inr (slots', lay', em')"
    and ok: "grids_ok slots lay em"
    and fresh: "\<forall>s \<in> set slots. slot_tray s \<noteq> tn"
  shows "grids_ok slots' lay' em'"
proof -
  from build_tray_result [OF built] show ?thesis
  proof (elim disjE exE conjE)
    assume "(slots', lay', em') = (slots, lay, em)"
    then show ?thesis using ok by simp
  next
    fix n_rows n_cols :: int and y_center cell_w cell_h wall :: real
    let ?G = "grid_slots tn n_rows n_cols y_center cell_w cell_h wall"
    assume eqs: "slots' = slots @ ?G"
      "lay' = lay(tn := replicate (nat n_rows) (replicate (nat n_cols) 0))"
      "em' = em(tn := replicate (nat n_rows) (replicate (nat n_cols) 0))"
    have G: "slot_tray s = tn \<and> slot_row s < nat n_rows \<and> slot_col s < nat n_cols"
      if "s \<in> set ?G" for s
      using that by (rule grid_slots_in_range)
    have disjoint: "slot_key ` set slots \<inter> slot_key ` set ?G = {}"
      using fresh G by (fastforce simp add: slot_key_def)
    have d: "distinct (map slot_key slots')"
      using ok disjoint by (simp add: eqs grids_ok_def distinct_grid_slots)
    have old_in: "in_tray lay' (slot_key s)" if "s \<in> set slots" for s
      using that ok fresh by (simp add: eqs grids_ok_def in_tray_def slot_key_def)
    have new_in: "in_tray lay' (slot_key s)" if "s \<in> set ?G" for s
      using G [OF that] by (simp add: eqs in_tray_def slot_key_def in_grid_replicate)
    have shape: "in_tray em' k = in_tray lay' k" for k
      using ok by (cases k) (auto simp add: eqs grids_ok_def in_tray_def in_grid_replicate)
    have zero: "cell lay' k = 0 \<and> cell em' k = 0" if "in_tray lay' k" for k
    proof (cases k)
      case (fields t r c)
      show ?thesis
      proof (cases "t = tn")
        case True
        then show ?thesis
          using that by (simp add: fields eqs in_tray_def cell_def in_grid_replicate)
      next
        case False
        then show ?thesis
          using that ok by (simp add: fields eqs in_tray_def cell_def grids_ok_def)
      qed
    qed
    show ?thesis
      unfolding grids_ok_def using d old_in new_in shape zero by (auto simp add: eqs)
  qed
qed

lemma build_tray_trays:
  assumes "build_tray general_settings tray_flags tn (slots, lay, em) = Inr (slots', lay', em')"
    and "s \<in> set slots'"
  shows "s \<in> set slots \<or> slot_tray s = tn"
  using build_tray_result [OF assms(1)] assms(2) grid_slots_in_range by fastforce

lemma build_slots_grids_ok:
  assumes "build_slots general_settings tray_flags = Inr (slots, lay, em)"
  shows "grids_ok slots lay em"
proof -
  from assms obtain slots1 lay1 em1 where
    run_front: "build_tray general_settings tray_flags Front ([], \<lambda>_. [], \<lambda>_. []) = Inr (slots1, lay1, em1)"
    and run_back: "build_tray general_settings tray_flags Back (slots1, lay1, em1) = Inr (slots, lay, em)"
    by (auto simp add: build_slots_def split: sum.splits)
  have start: "grids_ok ([] :: slot list) (\<lambda>_. []) (\<lambda>_. [])"
    by (simp add: grids_ok_def in_tray_def in_grid_def)
  have ok1: "grids_ok slots1 lay1 em1"
    by (rule build_tray_grids_ok [OF run_front start]) simp
  have "\<forall>s \<in> set slots1. slot_tray s \<noteq> Back"
    using build_tray_trays [OF run_front] by auto
  then show ?thesis by (rule build_tray_grids_ok [OF run_back ok1])
qed


text \<open>The candidates: which slots they are and what they record.\<close>

lemma with_percent_fields:
  "slot_key (with_percent s p) = slot_key s"
  "slot_pos (with_percent s p) = slot_pos s"
  "percent_improvement (with_percent s p) = p"
  by (simp_all add: with_percent_def slot_key_def slot_pos_def)

lemma simulate_slots_eq:
  "simulate_slots ws ps ideal od slots (cands, mx) =
     (cands @ map (\<lambda>s. with_percent s (slot_percent ws ps ideal od s))
                (filter (\<lambda>s. slot_percent ws ps ideal od s > 0) slots),
      fold (\<lambda>s m. max m (slot_percent ws ps ideal od s)) slots mx)"
  by (induction slots arbitrary: cands mx) (simp_all add: Let_def max_def not_less)

lemma select_candidates_eq:
  "select_candidates ws ps ideal od thr slots =
     apply_threshold thr (fold (\<lambda>s m. max m (slot_percent ws ps ideal od s)) slots 0)
       (sort_candidates (map (\<lambda>s. with_percent s (slot_percent ws ps ideal od s))
                          (filter (\<lambda>s. slot_percent ws ps ideal od s > 0) slots)))"
  by (simp add: select_candidates_def simulate_slots_eq)

lemma set_apply_threshold: "set (apply_threshold thr mx cs) \<subseteq> set cs"
  by (auto simp add: apply_threshold_def Let_def split: option.splits)

lemma distinct_apply_threshold:
  "distinct (map slot_key cs) \<Longrightarrow> distinct (map slot_key (apply_threshold thr mx cs))"
  by (simp add: apply_threshold_def Let_def distinct_map_filter split: option.splits)

lemma distinct_sort_candidates:
  "distinct (map slot_key cs) \<Longrightarrow> distinct (map slot_key (sort_candidates cs))"
  by (simp add: sort_candidates_def distinct_map)

lemma select_candidates_members:
  assumes "c \<in> set (select_candidates ws ps ideal od thr slots)"
  shows "\<exists>s \<in> set slots. slot_key c = slot_key s \<and> slot_pos c = slot_pos s \<and>
           percent_improvement c = slot_percent ws ps ideal od s \<and> 0 < percent_improvement c"
proof -
  have "c \<in> set (sort_candidates (map (\<lambda>s. with_percent s (slot_percent ws ps ideal od s))
                    (filter (\<lambda>s. slot_percent ws ps ideal od s > 0) slots)))"
    using assms set_apply_threshold unfolding select_candidates_eq by blast
  then show ?thesis
    by (auto simp add: sort_candidates_def with_percent_fields)
qed

lemma select_candidates_distinct:
  assumes "distinct (map slot_key slots)"
  shows "distinct (map slot_key (select_candidates ws ps ideal od thr slots))"
proof -
  have "map slot_key (map (\<lambda>s. with_percent s (slot_percent ws ps ideal od s))
          (filter (\<lambda>s. slot_percent ws ps ideal od s > 0) slots)) =
        map slot_key (filter (\<lambda>s. slot_percent ws ps ideal od s > 0) slots)"
    by (simp add: with_percent_fields)
  moreover have "distinct (map slot_key (filter (\<lambda>s. slot_percent ws ps ideal od s > 0) slots))"
    using assms by (rule distinct_map_filter)
  ultimately have "distinct (map slot_key (map (\<lambda>s. with_percent s (slot_percent ws ps ideal od s))
          (filter (\<lambda>s. slot_percent ws ps ideal od s > 0) slots)))"
    by (simp only:)
  then show ?thesis
    unfolding select_candidates_eq
    by (intro distinct_apply_threshold distinct_sort_candidates)
qed

text \<open>The stages of a run with a positive available weight.\<close>

lemma compute_stages:
  assumes "compute_optimal_tray_layout ws ps ideal bias gs flags mw unit thr = Inr r"
    and "0 < convert_to_grams mw unit - sum_list ws"
  obtains slots lay0 em0 lay1 em1 added used where
    "build_slots gs flags = Inr (slots, lay0, em0)"
    "place_weights (convert_to_grams mw unit - sum_list ws)
       (select_candidates ws ps (apply_bias_to_com ideal bias)
          (optimizer_calculate_displacement (optimizer_calculate_com ws ps)
             (apply_bias_to_com ideal bias)) thr slots)
       (lay0, em0, 0, []) = Inr (lay1, em1, added, used)"
    "normalize_effect_map em1 used = Inr (effect_map r)"
    "result_trays r = lay1"
    "final_disp r = optimizer_calculate_displacement
       (optimizer_calculate_com (ws @ map (\<lambda>_. effect_weight_grams) used) (ps @ map slot_pos used))
       (apply_bias_to_com ideal bias)"
    "total_weight r = sum_list ws + added"
proof -
  have trays: "result_trays r = lay" if "front_tray r = lay Front" "back_tray r = lay Back" for lay
  proof
    fix tn show "result_trays r tn = lay tn"
      using that by (cases tn) (simp_all add: result_trays_def)
  qed
  have pos: "(\<lambda>s. (slot_x s, slot_y s)) = (slot_pos :: candidate \<Rightarrow> real \<times> real)"
    by (simp add: slot_pos_def fun_eq_iff)
  show ?thesis
    using assms that trays
    by (auto simp add: compute_optimal_tray_layout_def Let_def pos
        split: sum.splits prod.splits if_splits)
qed


lemma fold_max_is_Max: "fold max es (e :: real) = Max (set (e # es))"
  by (rule Max.set_eq_fold [symmetric])

lemma grids_ok_distinct: "grids_ok slots lay em \<Longrightarrow> distinct (map slot_key slots)"
  unfolding grids_ok_def by blast

lemma grids_ok_in: "grids_ok slots lay em \<Longrightarrow> s \<in> set slots \<Longrightarrow> in_tray lay (slot_key s)"
  unfolding grids_ok_def by blast

lemma grids_ok_shape: "grids_ok slots lay em \<Longrightarrow> in_tray em k = in_tray lay k"
  unfolding grids_ok_def by blast

lemma grids_ok_zero:
  "grids_ok slots lay em \<Longrightarrow> in_tray lay k \<Longrightarrow> cell lay k = 0 \<and> cell em k = 0"
  unfolding grids_ok_def by blast

lemma normalize_effect_map_in_range:
  assumes "\<forall>s \<in> set used. in_tray em (slot_key s)" and "used \<noteq> []"
  shows "normalize_effect_map em used =
           divide_used (Max ((\<lambda>s. cell em (slot_key s)) ` set used)) used em"
proof -
  from assms(2) obtain u us where u: "used = u # us" by (cases used) auto
  have split: "map (\<lambda>s. cell em (slot_key s)) used =
                 cell em (slot_key u) # map (\<lambda>s. cell em (slot_key s)) us"
    by (simp add: u)
  then have "normalize_effect_map em used =
               divide_used (fold max (map (\<lambda>s. cell em (slot_key s)) us) (cell em (slot_key u)))
                 used em"
    unfolding normalize_effect_map_def used_effects_of_in_range [OF assms(1)] by simp
  also have "fold max (map (\<lambda>s. cell em (slot_key s)) us) (cell em (slot_key u)) =
               Max (set (map (\<lambda>s. cell em (slot_key s)) used))"
    unfolding split by (rule fold_max_is_Max)
  finally show ?thesis by simp
qed

text \<open>
  Claim C9. Whenever a run returns a result in which at least one cell is occupied, the
  effect map has the shape of the occupancy matrices, every occupied cell holds a value in
  \<open>(0, 1]\<close>, some occupied cell holds exactly 1 (so the maximum over the occupied cells
  is 1), and every unoccupied cell holds 0. The values are the recorded percents divided by
  their maximum: every occupied cell is the cell of a slot, there is a number \<open>mx > 0\<close>
  that is the largest recorded percent among the occupied slots, and the cell of every
  occupied slot holds that slot's recorded percent divided by \<open>mx\<close>.
\<close>

theorem effect_map_normalized:
  assumes run: "compute_optimal_tray_layout ws ps ideal bias gs flags mw unit thr = Inr r"
    and placed: "\<exists>k. in_tray (result_trays r) k \<and> cell (result_trays r) k = 1"
  shows "(\<forall>k. in_tray (result_trays r) k \<longrightarrow>
            in_tray (effect_map r) k \<and>
            (cell (result_trays r) k = 1 \<longrightarrow>
               0 < cell (effect_map r) k \<and> cell (effect_map r) k \<le> 1) \<and>
            (cell (result_trays r) k \<noteq> 1 \<longrightarrow> cell (effect_map r) k = 0))
       \<and> (\<exists>k. in_tray (result_trays r) k \<and> cell (result_trays r) k = 1 \<and>
                cell (effect_map r) k = 1)
       \<and> (\<exists>slots lay0 em0 mx.
             build_slots gs flags = Inr (slots, lay0, em0) \<and> 0 < mx \<and>
             (\<forall>k. in_tray (result_trays r) k \<and> cell (result_trays r) k = 1 \<longrightarrow>
                  k \<in> slot_key ` set slots) \<and>
             (\<forall>s \<in> set slots. cell (result_trays r) (slot_key s) = 1 \<longrightarrow>
                  recorded_percent ws ps ideal bias s \<le> mx \<and>
                  cell (effect_map r) (slot_key s) = recorded_percent ws ps ideal bias s / mx) \<and>
             (\<exists>s \<in> set slots. cell (result_trays r) (slot_key s) = 1 \<and>
                  recorded_percent ws ps ideal bias s = mx))"
proof -
  have avail: "0 < convert_to_grams mw unit - sum_list ws"
  proof (rule ccontr)
    assume "\<not> 0 < convert_to_grams mw unit - sum_list ws"
    then have "front_tray r = []" "back_tray r = []"
      using run by (auto simp add: compute_optimal_tray_layout_def Let_def)
    then have "\<not> in_tray (result_trays r) (tn, i, j)" for tn i j
      by (cases tn) (simp_all add: in_tray_def in_grid_def result_trays_def)
    then show False using placed by auto
  qed
  from compute_stages [OF run avail] obtain slots lay0 em0 lay1 em1 added used where
    built: "build_slots gs flags = Inr (slots, lay0, em0)"
    and placed_run: "place_weights (convert_to_grams mw unit - sum_list ws)
       (select_candidates ws ps (apply_bias_to_com ideal bias)
          (optimizer_calculate_displacement (optimizer_calculate_com ws ps)
             (apply_bias_to_com ideal bias)) thr slots)
       (lay0, em0, 0, []) = Inr (lay1, em1, added, used)"
    and normalized: "normalize_effect_map em1 used = Inr (effect_map r)"
    and trays: "result_trays r = lay1"
    by metis
  define cs where "cs = select_candidates ws ps (apply_bias_to_com ideal bias)
          (optimizer_calculate_displacement (optimizer_calculate_com ws ps)
             (apply_bias_to_com ideal bias)) thr slots"
  have ok: "grids_ok slots lay0 em0" by (rule build_slots_grids_ok [OF built])
  have shape0: "in_tray em0 k = in_tray lay0 k" for k by (rule grids_ok_shape [OF ok])
  have zero0: "cell lay0 k = 0 \<and> cell em0 k = 0" if "in_tray lay0 k" for k
    by (rule grids_ok_zero [OF ok that])
  have cs_member: "\<exists>s \<in> set slots. slot_key c = slot_key s \<and> 0 < percent_improvement c"
    if "c \<in> set cs" for c
    using select_candidates_members [OF that [unfolded cs_def]] by blast
  have cs_in: "in_tray lay0 (slot_key c) \<and> in_tray em0 (slot_key c)" if "c \<in> set cs" for c
    using cs_member [OF that] grids_ok_in [OF ok] by (auto simp add: shape0)
  have cs_distinct: "distinct (map slot_key cs)"
    unfolding cs_def by (intro select_candidates_distinct grids_ok_distinct [OF ok])
  have "\<forall>s \<in> set cs. in_tray lay0 (slot_key s) \<and> in_tray em0 (slot_key s)"
    using cs_in by blast
  from place_weights_in_range [OF this, of "convert_to_grams mw unit - sum_list ws" 0 "[]"]
  obtain n where "place_weights (convert_to_grams mw unit - sum_list ws) cs (lay0, em0, 0, []) =
      Inr (fold (\<lambda>s m. write_cell m (slot_key s) 1) (take n cs) lay0,
           fold (\<lambda>s m. write_cell m (slot_key s) (percent_improvement s)) (take n cs) em0,
           0 + effect_weight_grams * real n, [] @ take n cs)"
    by blast
  with placed_run have
    lay1: "lay1 = fold (\<lambda>s m. write_cell m (slot_key s) 1) (take n cs) lay0"
    and em1: "em1 = fold (\<lambda>s m. write_cell m (slot_key s) (percent_improvement s)) (take n cs) em0"
    and used: "used = take n cs"
    by (simp_all add: cs_def)
  have used_sub: "set used \<subseteq> set cs" unfolding used by (rule set_take_subset)
  have used_distinct: "distinct (map slot_key used)"
    unfolding used using cs_distinct by (simp add: take_map [symmetric] distinct_take)
  have used_pos: "0 < percent_improvement c" if "c \<in> set used" for c
    using cs_member that used_sub by blast
  have shape1: "in_tray lay1 k = in_tray lay0 k" "in_tray em1 k = in_tray lay0 k" for k
    by (simp_all add: lay1 em1 in_tray_fold_write shape0)
  have used_in: "in_tray lay0 (slot_key c)" if "c \<in> set used" for c
    using cs_in that used_sub by blast
  have lay1_used: "cell lay1 (slot_key c) = 1" if "c \<in> set used" for c
    unfolding lay1 used [symmetric]
    using used_distinct that used_in [OF that] by (rule cell_fold_write_in)
  have em1_used: "cell em1 (slot_key c) = percent_improvement c" if "c \<in> set used" for c
    unfolding em1 used [symmetric]
    using used_distinct that used_in [OF that, folded shape0] by (rule cell_fold_write_in)
  have lay1_free: "cell lay1 k = 0" if "k \<notin> slot_key ` set used" "in_tray lay0 k" for k
    unfolding lay1 used [symmetric] using that zero0 by (simp add: cell_fold_write_other)
  have em1_free: "cell em1 k = 0" if "k \<notin> slot_key ` set used" "in_tray lay0 k" for k
    unfolding em1 used [symmetric] using that zero0 by (simp add: cell_fold_write_other)
  have used_in_em1: "\<forall>s \<in> set used. in_tray em1 (slot_key s)"
    using used_in by (simp add: shape1)
  have nonempty: "used \<noteq> []"
  proof
    assume "used = []"
    then have "cell lay1 k = 0" if "in_tray lay1 k" for k
      using lay1_free [of k] that by (simp add: shape1)
    then show False using placed by (auto simp add: trays)
  qed
  define mx where "mx = Max (percent_improvement ` set used)"
  have "(\<lambda>s. cell em1 (slot_key s)) ` set used = percent_improvement ` set used"
    using em1_used by (intro image_cong) simp_all
  then have divided: "divide_used mx used em1 = Inr (effect_map r)"
    using normalized
    by (simp add: normalize_effect_map_in_range [OF used_in_em1 nonempty] mx_def)
  have mx_ge: "percent_improvement c \<le> mx" if "c \<in> set used" for c
    unfolding mx_def using that by simp
  have "mx \<in> percent_improvement ` set used"
    unfolding mx_def using nonempty by (intro Max_in) simp_all
  then obtain top where top: "top \<in> set used" "percent_improvement top = mx" by auto
  have mx_pos: "0 < mx" using used_pos [OF top(1)] top(2) by simp
  from divide_used_in_range [OF used_in_em1 used_distinct, of mx] obtain em2 where
    em2: "divide_used mx used em1 = Inr em2"
    and em2_shape: "\<forall>k. in_tray em2 k = in_tray em1 k"
    and em2_vals: "\<forall>k. cell em2 k =
                 (if k \<in> slot_key ` set used \<and> cell em1 k > 0 then cell em1 k / mx else cell em1 k)"
    by blast
  have em2_eq: "em2 = effect_map r" using em2 divided by simp
  have shape2: "in_tray (effect_map r) k = in_tray em1 k" for k
    using em2_shape [rule_format, of k] by (simp only: em2_eq)
  have vals: "cell (effect_map r) k =
                (if k \<in> slot_key ` set used \<and> cell em1 k > 0 then cell em1 k / mx else cell em1 k)"
    for k
    using em2_vals [rule_format, of k] by (simp only: em2_eq)
  have occupied: "0 < cell (effect_map r) k \<and> cell (effect_map r) k \<le> 1"
    if "in_tray lay1 k" "cell lay1 k = 1" for k
  proof -
    have "k \<in> slot_key ` set used"
      using lay1_free [of k] that by (auto simp add: shape1)
    then obtain c where c: "c \<in> set used" "k = slot_key c" by auto
    have "cell (effect_map r) k = percent_improvement c / mx"
      using c used_pos [OF c(1)] by (simp add: vals em1_used)
    then show ?thesis using used_pos [OF c(1)] mx_ge [OF c(1)] mx_pos by simp
  qed
  have free: "cell (effect_map r) k = 0" if "in_tray lay1 k" "cell lay1 k \<noteq> 1" for k
  proof -
    have "k \<notin> slot_key ` set used" using lay1_used that(2) by auto
    then show ?thesis using em1_free [of k] that(1) by (simp add: vals shape1)
  qed
  have best: "in_tray lay1 (slot_key top) \<and> cell lay1 (slot_key top) = 1 \<and>
              cell (effect_map r) (slot_key top) = 1"
    using top mx_pos used_in [OF top(1)] lay1_used [OF top(1)]
    by (auto simp add: shape1 vals em1_used)
  have every: "\<forall>k. in_tray lay1 k \<longrightarrow>
            in_tray (effect_map r) k \<and>
            (cell lay1 k = 1 \<longrightarrow> 0 < cell (effect_map r) k \<and> cell (effect_map r) k \<le> 1) \<and>
            (cell lay1 k \<noteq> 1 \<longrightarrow> cell (effect_map r) k = 0)"
    using occupied free shape2 shape1 by blast
  have some: "\<exists>k. in_tray lay1 k \<and> cell lay1 k = 1 \<and> cell (effect_map r) k = 1"
    using best by (intro exI [of _ "slot_key top"])
  have cs_slot: "\<exists>s \<in> set slots. slot_key c = slot_key s \<and>
                   percent_improvement c = recorded_percent ws ps ideal bias s"
    if "c \<in> set cs" for c
    using select_candidates_members [OF that [unfolded cs_def]]
    unfolding recorded_percent_def Let_def by blast
  have inj: "inj_on slot_key (set slots)"
    using grids_ok_distinct [OF ok] by (simp add: distinct_map)
  have used_key: "k \<in> slot_key ` set used" if "in_tray lay0 k" "cell lay1 k = 1" for k
  proof (rule ccontr)
    assume "k \<notin> slot_key ` set used"
    from lay1_free [OF this that(1)] that(2) show False by simp
  qed
  have slot_cells: "k \<in> slot_key ` set slots" if "in_tray lay1 k \<and> cell lay1 k = 1" for k
  proof -
    from that have "k \<in> slot_key ` set used" by (intro used_key) (simp_all add: shape1)
    then obtain c where c: "c \<in> set used" "k = slot_key c" by blast
    from cs_slot [of c] c(1) used_sub obtain s where "s \<in> set slots" "slot_key c = slot_key s"
      by blast
    then show ?thesis using c(2) by blast
  qed
  have slot_vals: "recorded_percent ws ps ideal bias s \<le> mx \<and>
        cell (effect_map r) (slot_key s) = recorded_percent ws ps ideal bias s / mx"
    if s: "s \<in> set slots" and occ: "cell lay1 (slot_key s) = 1" for s
  proof -
    have "slot_key s \<in> slot_key ` set used"
      using grids_ok_in [OF ok s] occ by (rule used_key)
    then obtain c where c: "c \<in> set used" "slot_key c = slot_key s" by force
    from cs_slot [of c] c(1) used_sub obtain s' where s': "s' \<in> set slots"
      "slot_key c = slot_key s'" "percent_improvement c = recorded_percent ws ps ideal bias s'"
      by blast
    have "s' = s" using inj s s'(1) s'(2) c(2) by (simp add: inj_on_def)
    then have pc: "percent_improvement c = recorded_percent ws ps ideal bias s"
      using s'(3) by simp
    have "cell (effect_map r) (slot_key c) = percent_improvement c / mx"
      using c(1) used_pos [OF c(1)] by (simp add: vals em1_used)
    then show ?thesis using mx_ge [OF c(1)] by (simp add: pc c(2))
  qed
  from cs_slot [of top] top(1) used_sub obtain stop where stop: "stop \<in> set slots"
    "slot_key top = slot_key stop" "percent_improvement top = recorded_percent ws ps ideal bias stop"
    by blast
  have top_slot: "\<exists>s \<in> set slots. cell lay1 (slot_key s) = 1 \<and>
                    recorded_percent ws ps ideal bias s = mx"
    using stop top(2) lay1_used [OF top(1)] by (intro bexI [of _ stop]) simp_all
  have divided_by_max: "\<exists>slots lay0 em0 mx.
             build_slots gs flags = Inr (slots, lay0, em0) \<and> 0 < mx \<and>
             (\<forall>k. in_tray lay1 k \<and> cell lay1 k = 1 \<longrightarrow> k \<in> slot_key ` set slots) \<and>
             (\<forall>s \<in> set slots. cell lay1 (slot_key s) = 1 \<longrightarrow>
                  recorded_percent ws ps ideal bias s \<le> mx \<and>
                  cell (effect_map r) (slot_key s) = recorded_percent ws ps ideal bias s / mx) \<and>
             (\<exists>s \<in> set slots. cell lay1 (slot_key s) = 1 \<and>
                  recorded_percent ws ps ideal bias s = mx)"
    using built mx_pos slot_cells slot_vals top_slot by blast
  show ?thesis
    unfolding trays using every some divided_by_max by (intro conjI)
qed

subsection \<open>Tray optimizer: missing keys and mismatched lengths\<close>

text \<open>Missing keys, and runs that cannot fail.\<close>

lemma build_tray_incomplete:
  assumes "get_or (tray_flags (tray_key tn)) False"
    and "general_settings (settings_key tn) = Some tray"
    and "\<not> complete_settings tray"
  shows "\<exists>k \<in> set [''rows'', ''columns'', ''y_position'', ''cell_width'', ''cell_height'',
                     ''wall_thickness''].
           build_tray general_settings tray_flags tn st = Inl (KeyError k)"
  using assms
  by (cases st)
     (auto simp add: build_tray_def Let_def lookup_def settings_key_def complete_settings_def
        split: option.splits)

lemma build_tray_error:
  assumes "build_tray general_settings tray_flags tn st = Inl e"
  shows "\<exists>k. e = KeyError k"
  using assms
  by (cases st)
     (auto simp add: build_tray_def Let_def lookup_def split: option.splits if_splits)

lemma build_tray_complete:
  assumes "get_or (tray_flags (tray_key tn)) False \<longrightarrow>
             (\<exists>tray. general_settings (settings_key tn) = Some tray \<and> complete_settings tray)"
  shows "\<exists>st'. build_tray general_settings tray_flags tn st = Inr st'"
proof (cases "get_or (tray_flags (tray_key tn)) False")
  case False
  then show ?thesis by (cases st) (simp add: build_tray_def)
next
  case True
  with assms obtain tray where tray: "general_settings (settings_key tn) = Some tray"
    and complete: "complete_settings tray"
    by blast
  from complete obtain n_rows n_cols y_center cell_w cell_h wall where fields:
    "rows tray = Some n_rows" "columns tray = Some n_cols" "y_position tray = Some y_center"
    "cell_width tray = Some cell_w" "cell_height tray = Some cell_h"
    "wall_thickness tray = Some wall"
    unfolding complete_settings_def by blast
  have found: "general_settings (if tn = Front then ''weight_tray1'' else ''weight_tray2'') = Some tray"
    using tray by (simp add: settings_key_def)
  show ?thesis
    using True
    by (cases st) (simp add: build_tray_def Let_def lookup_def found fields)
qed

lemma build_slots_incomplete:
  assumes "get_or (tray_flags (tray_key tn)) False"
    and "general_settings (settings_key tn) = Some tray"
    and "\<not> complete_settings tray"
  shows "\<exists>k. build_slots general_settings tray_flags = Inl (KeyError k)"
proof (cases "build_tray general_settings tray_flags Front ([], \<lambda>_. [], \<lambda>_. [])")
  case (Inl e)
  then show ?thesis using build_tray_error [OF Inl] by (simp add: build_slots_def)
next
  case (Inr st)
  have fails: "\<exists>k \<in> set [''rows'', ''columns'', ''y_position'', ''cell_width'', ''cell_height'',
                     ''wall_thickness''].
           build_tray general_settings tray_flags tn st' = Inl (KeyError k)" for st'
    using assms by (rule build_tray_incomplete)
  have "tn = Back"
  proof (rule ccontr)
    assume "tn \<noteq> Back"
    then have "tn = Front" by (cases tn) simp_all
    with fails [of "([], \<lambda>_. [], \<lambda>_. [])"] Inr show False by auto
  qed
  with fails [of st] show ?thesis
    by (auto simp add: build_slots_def Inr)
qed

lemma build_slots_complete:
  assumes "\<forall>tn. get_or (tray_flags (tray_key tn)) False \<longrightarrow>
             (\<exists>tray. general_settings (settings_key tn) = Some tray \<and> complete_settings tray)"
  shows "\<exists>slots lay em. build_slots general_settings tray_flags = Inr (slots, lay, em)"
proof -
  have runs: "\<exists>st'. build_tray general_settings tray_flags tn st = Inr st'" for tn st
    by (rule build_tray_complete) (use assms in blast)
  from runs [of Front "([], \<lambda>_. [], \<lambda>_. [])"]
  obtain st where st: "build_tray general_settings tray_flags Front ([], \<lambda>_. [], \<lambda>_. []) = Inr st"
    by blast
  from runs [of Back st]
  obtain st' where "build_tray general_settings tray_flags Back st = Inr st'"
    by blast
  then show ?thesis by (cases st') (simp add: build_slots_def st)
qed

lemma place_and_normalize_in_range:
  assumes ok: "grids_ok slots lay0 em0"
  shows "\<exists>lay1 em1 added used em2.
           place_weights av (select_candidates ws ps ideal od thr slots) (lay0, em0, 0, []) =
             Inr (lay1, em1, added, used) \<and>
           normalize_effect_map em1 used = Inr em2"
proof -
  define cs where "cs = select_candidates ws ps ideal od thr slots"
  have cs_in: "\<forall>c \<in> set cs. in_tray lay0 (slot_key c) \<and> in_tray em0 (slot_key c)"
  proof
    fix c assume "c \<in> set cs"
    from select_candidates_members [OF this [unfolded cs_def]]
    obtain s where "s \<in> set slots" "slot_key c = slot_key s" by blast
    then show "in_tray lay0 (slot_key c) \<and> in_tray em0 (slot_key c)"
      using grids_ok_in [OF ok] by (simp add: grids_ok_shape [OF ok])
  qed
  from place_weights_in_range [OF cs_in, of av 0 "[]"] obtain n where
    placed: "place_weights av cs (lay0, em0, 0, []) =
      Inr (fold (\<lambda>s m. write_cell m (slot_key s) 1) (take n cs) lay0,
           fold (\<lambda>s m. write_cell m (slot_key s) (percent_improvement s)) (take n cs) em0,
           0 + effect_weight_grams * real n, [] @ take n cs)"
    by blast
  define em1 where
    "em1 = fold (\<lambda>s m. write_cell m (slot_key s) (percent_improvement s)) (take n cs) em0"
  have used_in: "\<forall>s \<in> set (take n cs). in_tray em1 (slot_key s)"
    using cs_in set_take_subset [of n cs] by (auto simp add: em1_def in_tray_fold_write)
  have "distinct (map slot_key cs)"
    unfolding cs_def by (intro select_candidates_distinct grids_ok_distinct [OF ok])
  then have used_distinct: "distinct (map slot_key (take n cs))"
    by (simp add: take_map [symmetric] distinct_take)
  have "\<exists>em2. normalize_effect_map em1 (take n cs) = Inr em2"
  proof (cases "take n cs = []")
    case True
    show ?thesis unfolding True by (simp add: normalize_effect_map_def)
  next
    case False
    from divide_used_in_range [OF used_in used_distinct] show ?thesis
      unfolding normalize_effect_map_in_range [OF used_in False] by blast
  qed
  then show ?thesis
    using placed unfolding cs_def [symmetric] em1_def [symmetric] by auto
qed

lemma compute_with_budget:
  assumes "0 < convert_to_grams mw unit - sum_list ws"
  shows "compute_optimal_tray_layout ws ps ideal bias gs flags mw unit thr =
     (case build_slots gs flags of
        Inl e \<Rightarrow> Inl e
      | Inr (slots, lay0, em0) \<Rightarrow>
          (case place_weights (convert_to_grams mw unit - sum_list ws)
                  (select_candidates ws ps (apply_bias_to_com ideal bias)
                     (optimizer_calculate_displacement (optimizer_calculate_com ws ps)
                        (apply_bias_to_com ideal bias)) thr slots)
                  (lay0, em0, 0, []) of
             Inl e \<Rightarrow> Inl e
           | Inr (lay1, em1, added, used) \<Rightarrow>
               (case normalize_effect_map em1 used of
                  Inl e \<Rightarrow> Inl e
                | Inr em2 \<Rightarrow>
                    Inr \<lparr>front_tray = lay1 Front, back_tray = lay1 Back,
                         final_com = optimizer_calculate_com
                           (ws @ map (\<lambda>_. effect_weight_grams) used)
                           (ps @ map (\<lambda>s. (slot_x s, slot_y s)) used),
                         final_disp = optimizer_calculate_displacement
                           (optimizer_calculate_com
                              (ws @ map (\<lambda>_. effect_weight_grams) used)
                              (ps @ map (\<lambda>s. (slot_x s, slot_y s)) used))
                           (apply_bias_to_com ideal bias),
                         total_weight = sum_list ws + added,
                         effect_map = em2\<rparr>)))"
  using assms
  by (simp add: compute_optimal_tray_layout_def Let_def split: sum.splits prod.splits)

text \<open>
  Claim C6, as amended. With a positive available weight, an enabled tray whose settings
  lack one of the six keys makes the run fail with a \<open>KeyError\<close>, so no result is
  returned. When every enabled tray has complete settings the run returns a result for all
  lists of sensor weights and positions, of equal length or not: a length mismatch raises
  nothing. With no available weight the run returns a result whatever the settings hold.
\<close>

theorem missing_key_and_mismatched_lengths:
  "(0 < convert_to_grams mw unit - sum_list ws \<and>
    get_or (flags (tray_key tn)) False \<and> gs (settings_key tn) = Some tray \<and>
    \<not> complete_settings tray \<longrightarrow>
      (\<exists>k. compute_optimal_tray_layout ws ps ideal bias gs flags mw unit thr = Inl (KeyError k)))
   \<and> ((\<forall>tn. get_or (flags (tray_key tn)) False \<longrightarrow>
             (\<exists>tray. gs (settings_key tn) = Some tray \<and> complete_settings tray)) \<longrightarrow>
      (\<exists>r. compute_optimal_tray_layout ws ps ideal bias gs flags mw unit thr = Inr r))
   \<and> (convert_to_grams mw unit - sum_list ws \<le> 0 \<longrightarrow>
      (\<exists>r. compute_optimal_tray_layout ws ps ideal bias gs flags mw unit thr = Inr r))"
proof (intro conjI impI)
  assume a: "0 < convert_to_grams mw unit - sum_list ws \<and>
    get_or (flags (tray_key tn)) False \<and> gs (settings_key tn) = Some tray \<and>
    \<not> complete_settings tray"
  then have avail: "0 < convert_to_grams mw unit - sum_list ws" by blast
  from a have "\<exists>k. build_slots gs flags = Inl (KeyError k)"
    by (intro build_slots_incomplete [of flags tn gs tray]) blast+
  then obtain k where "build_slots gs flags = Inl (KeyError k)" by blast
  then have "compute_optimal_tray_layout ws ps ideal bias gs flags mw unit thr = Inl (KeyError k)"
    by (simp only: compute_with_budget [OF avail] sum.case)
  then show "\<exists>k. compute_optimal_tray_layout ws ps ideal bias gs flags mw unit thr = Inl (KeyError k)"
    by blast
next
  assume complete: "\<forall>tn. get_or (flags (tray_key tn)) False \<longrightarrow>
             (\<exists>tray. gs (settings_key tn) = Some tray \<and> complete_settings tray)"
  show "\<exists>r. compute_optimal_tray_layout ws ps ideal bias gs flags mw unit thr = Inr r"
  proof (cases "0 < convert_to_grams mw unit - sum_list ws")
    case False
    then show ?thesis
      by (simp add: compute_optimal_tray_layout_def Let_def)
  next
    case True
    from build_slots_complete [OF complete] obtain slots lay0 em0 where
      built: "build_slots gs flags = Inr (slots, lay0, em0)" by blast
    from place_and_normalize_in_range [OF build_slots_grids_ok [OF built]]
    obtain lay1 em1 added used em2 where
      "place_weights (convert_to_grams mw unit - sum_list ws)
         (select_candidates ws ps (apply_bias_to_com ideal bias)
            (optimizer_calculate_displacement (optimizer_calculate_com ws ps)
               (apply_bias_to_com ideal bias)) thr slots)
         (lay0, em0, 0, []) = Inr (lay1, em1, added, used)"
      "normalize_effect_map em1 used = Inr em2"
      by blast
    then show ?thesis
      by (simp only: compute_with_budget [OF True] built sum.case prod.case) blast
  qed
next
  assume "convert_to_grams mw unit - sum_list ws \<le> 0"
  then show "\<exists>r. compute_optimal_tray_layout ws ps ideal bias gs flags mw unit thr = Inr r"
    by (simp add: compute_optimal_tray_layout_def Let_def)
qed

lemma layout_mismatched:
  "compute_optimal_tray_layout [113, 113] [(0, 0)] (0, 1) Map.empty
     [''weight_tray1'' \<mapsto> tray_of 1 1] front_only 1000 ''g'' None =
   Inr \<lparr>front_tray = [[1]], back_tray = [], final_com = (0, 2 / 3), final_disp = 1 / 3,
        total_weight = 339, effect_map = (\<lambda>_. [])(Front := [[1]])\<rparr>"
  by (simp add: compute_optimal_tray_layout_def Let_def build_1x1 convert_to_grams_def
      convert_unit_def apply_bias_to_com_def get_or_def optimizer_calculate_com_def
      displacement_same_x displacement_same_y slot_percent_def effect_weight_grams_def
      with_percent_def select_candidates_def sort_candidates_def apply_threshold_def set_cell_def get_cell_def
      normalize_effect_map_def)

lemma layout_missing_rows:
  "compute_optimal_tray_layout [113] [(0, 0)] (0, 1) Map.empty
     [''weight_tray1'' \<mapsto> (tray_of 1 1)\<lparr>rows := None\<rparr>] front_only 1000 ''g'' None =
   Inl (KeyError ''rows'')"
  by (simp add: compute_optimal_tray_layout_def Let_def convert_to_grams_def
      convert_unit_def build_slots_def build_tray_def front_only_def tray_key_def get_or_def
      lookup_def tray_of_def)

lemma layout_missing_rows_no_budget:
  "compute_optimal_tray_layout [500] [(0, 0)] (0, 1) Map.empty
     [''weight_tray1'' \<mapsto> (tray_of 1 1)\<lparr>rows := None\<rparr>] front_only 500 ''g'' None =
   Inr \<lparr>front_tray = [], back_tray = [], final_com = (0, 0), final_disp = 1,
        total_weight = 500, effect_map = (\<lambda>_. [])\<rparr>"
  by (simp add: compute_optimal_tray_layout_def convert_to_grams_def
      convert_unit_def optimizer_calculate_com_def apply_bias_to_com_def get_or_def
      displacement_same_x)

theorem missing_key_and_mismatched_lengths_counterexample:
  "compute_optimal_tray_layout [113, 113] [(0, 0)] (0, 1) Map.empty
     [''weight_tray1'' \<mapsto> tray_of 1 1] front_only 1000 ''g'' None =
   Inr \<lparr>front_tray = [[1]], back_tray = [], final_com = (0, 2 / 3), final_disp = 1 / 3,
        total_weight = 339, effect_map = (\<lambda>_. [])(Front := [[1]])\<rparr>
   \<and> length [113, 113 :: real] \<noteq> length [(0, 0) :: real \<times> real]
   \<and> compute_optimal_tray_layout [500] [(0, 0)] (0, 1) Map.empty
       [''weight_tray1'' \<mapsto> (tray_of 1 1)\<lparr>rows := None\<rparr>] front_only 500 ''g'' None =
     Inr \<lparr>front_tray = [], back_tray = [], final_com = (0, 0), final_disp = 1,
          total_weight = 500, effect_map = (\<lambda>_. [])\<rparr>"
  using layout_mismatched layout_missing_rows_no_budget by simp

theorem missing_key_and_mismatched_lengths_witness:
  "0 < convert_to_grams 1000 ''g'' - sum_list [113]
   \<and> get_or (front_only (tray_key Front)) False
   \<and> [''weight_tray1'' \<mapsto> (tray_of 1 1)\<lparr>rows := None\<rparr>] (settings_key Front)
       = Some ((tray_of 1 1)\<lparr>rows := None\<rparr>)
   \<and> \<not> complete_settings ((tray_of 1 1)\<lparr>rows := None\<rparr>)
   \<and> compute_optimal_tray_layout [113] [(0, 0)] (0, 1) Map.empty
         [''weight_tray1'' \<mapsto> (tray_of 1 1)\<lparr>rows := None\<rparr>] front_only 1000 ''g'' None =
       Inl (KeyError ''rows'')
   \<and> complete_settings (tray_of 1 1)
   \<and> \<not> get_or (front_only (tray_key Back)) False
   \<and> (\<exists>r. compute_optimal_tray_layout [113, 113] [(0, 0)] (0, 1) Map.empty
         [''weight_tray1'' \<mapsto> tray_of 1 1] front_only 1000 ''g'' None = Inr r)
   \<and> convert_to_grams 500 ''g'' - sum_list [500] \<le> 0
   \<and> (\<exists>r. compute_optimal_tray_layout [500] [(0, 0)] (0, 1) Map.empty
         [''weight_tray1'' \<mapsto> (tray_of 1 1)\<lparr>rows := None\<rparr>] front_only 500 ''g'' None = Inr r)"
proof -
  have enabled: "get_or (front_only (tray_key Front)) False"
    and disabled: "\<not> get_or (front_only (tray_key Back)) False"
    by (simp_all add: front_only_def tray_key_def get_or_def)
  have complete: "complete_settings (tray_of 1 1)"
    and incomplete: "\<not> complete_settings ((tray_of 1 1)\<lparr>rows := None\<rparr>)"
    by (simp_all add: complete_settings_def tray_of_def)
  have avail: "0 < convert_to_grams 1000 ''g'' - sum_list [113]"
    by (simp add: convert_to_grams_def convert_unit_def)
  have all_complete: "\<forall>tn. get_or (front_only (tray_key tn)) False \<longrightarrow>
      (\<exists>tray. [''weight_tray1'' \<mapsto> tray_of 1 1] (settings_key tn) = Some tray \<and>
              complete_settings tray)"
  proof (intro allI impI)
    fix tn assume "get_or (front_only (tray_key tn)) False"
    then have "tn = Front" using disabled by (cases tn) simp_all
    then show "\<exists>tray. [''weight_tray1'' \<mapsto> tray_of 1 1] (settings_key tn) = Some tray \<and>
              complete_settings tray"
      using complete by (simp add: settings_key_def)
  qed
  note claim = missing_key_and_mismatched_lengths
  have returns: "\<exists>r. compute_optimal_tray_layout [113, 113] [(0, 0)] (0, 1) Map.empty
         [''weight_tray1'' \<mapsto> tray_of 1 1] front_only 1000 ''g'' None = Inr r"
    using claim [THEN conjunct2, THEN conjunct1, THEN mp, OF all_complete] .
  have spent: "convert_to_grams 500 ''g'' - sum_list [500] \<le> 0"
    by (simp add: convert_to_grams_def convert_unit_def)
  have still: "\<exists>r. compute_optimal_tray_layout [500] [(0, 0)] (0, 1) Map.empty
         [''weight_tray1'' \<mapsto> (tray_of 1 1)\<lparr>rows := None\<rparr>] front_only 500 ''g'' None = Inr r"
    using claim [THEN conjunct2, THEN conjunct2, THEN mp, OF spent] .
  have found: "[''weight_tray1'' \<mapsto> (tray_of 1 1)\<lparr>rows := None\<rparr>] (settings_key Front)
       = Some ((tray_of 1 1)\<lparr>rows := None\<rparr>)"
    by (simp add: settings_key_def)
  show ?thesis
    by (intro conjI avail enabled found incomplete layout_missing_rows complete disabled returns
        spent still)
qed

subsection \<open>Tray optimizer: more slots\<close>

text \<open>A budget of less than two units places the first candidate or nothing.\<close>

lemma place_weights_stops:
  assumes "av < added + effect_weight_grams"
  shows "place_weights av cs (lay, em, added, used) = Inr (lay, em, added, used)"
  using assms by (cases cs) simp_all

lemma place_weights_one_unit:
  assumes run: "place_weights av cs (lay, em, 0, []) = Inr (lay', em', added', used')"
    and small: "av < 2 * effect_weight_grams"
  shows "used' = (if effect_weight_grams \<le> av then take 1 cs else [])"
proof (cases "effect_weight_grams \<le> av")
  case False
  then have "av < 0 + effect_weight_grams" by simp
  from place_weights_stops [OF this] run show ?thesis using False by simp
next
  case True
  show ?thesis
  proof (cases cs)
    case Nil
    then show ?thesis using run by simp
  next
    case (Cons c rest)
    from run True obtain lay1 em1 where
      "place_weights av rest (lay1, em1, 0 + effect_weight_grams, [] @ [c]) =
         Inr (lay', em', added', used')"
      unfolding Cons by (auto split: sum.splits)
    moreover have "av < (0 + effect_weight_grams) + effect_weight_grams" using small by simp
    ultimately have "used' = [c]"
      using place_weights_stops [of av "0 + effect_weight_grams" rest lay1 em1 "[] @ [c]"]
      by simp
    then show ?thesis using True by (simp add: Cons)
  qed
qed

text \<open>The best improvement over the slots, and the head of the selected candidates.\<close>

lemma fold_max_bounds:
  fixes f :: "'a \<Rightarrow> real"
  shows "m0 \<le> fold (\<lambda>s m. max m (f s)) xs m0"
    and "\<forall>s \<in> set xs. f s \<le> fold (\<lambda>s m. max m (f s)) xs m0"
    and "fold (\<lambda>s m. max m (f s)) xs m0 = m0 \<or> fold (\<lambda>s m. max m (f s)) xs m0 \<in> f ` set xs"
proof (induction xs arbitrary: m0)
  case Nil
  { case 1 show ?case by simp }
  { case 2 show ?case by simp }
  { case 3 show ?case by simp }
next
  case (Cons x xs)
  { case 1 show ?case using Cons.IH(1) [of "max m0 (f x)"] by simp }
  { case 2 show ?case
      using Cons.IH(1) [of "max m0 (f x)"] Cons.IH(2) [of "max m0 (f x)"] by auto }
  { case 3 show ?case
      using Cons.IH(3) [of "max m0 (f x)"] by (auto simp add: max_def) }
qed

lemma sort_candidates_head:
  assumes "cs \<noteq> []"
  obtains h rest where "sort_candidates cs = h # rest" "h \<in> set cs"
    "\<forall>c \<in> set cs. percent_improvement c \<le> percent_improvement h"
proof -
  have "sort_candidates cs \<noteq> []"
    using assms by (metis length_sort sort_candidates_def length_0_conv)
  then obtain h rest where hr: "sort_candidates cs = h # rest" by (cases "sort_candidates cs") auto
  have set_eq: "set (h # rest) = set cs"
    using hr by (metis set_sort sort_candidates_def)
  have "sorted (map (\<lambda>s. - percent_improvement s) (h # rest))"
    using hr by (metis sorted_sort_key sort_candidates_def)
  then have "\<forall>c \<in> set rest. percent_improvement c \<le> percent_improvement h" by auto
  then have "\<forall>c \<in> set cs. percent_improvement c \<le> percent_improvement h"
    using set_eq by auto
  moreover have "h \<in> set cs" using set_eq by auto
  ultimately show ?thesis using hr that by blast
qed


lemma best_improvement_eq:
  "best_improvement ws ps ideal od slots =
     fold (\<lambda>s m. max m (slot_percent ws ps ideal od s)) slots 0"
  by (simp add: best_improvement_def simulate_slots_eq)

lemma best_improvement_bounds:
  "0 \<le> best_improvement ws ps ideal od slots"
  "s \<in> set slots \<Longrightarrow> slot_percent ws ps ideal od s \<le> best_improvement ws ps ideal od slots"
  "best_improvement ws ps ideal od slots = 0 \<or>
     best_improvement ws ps ideal od slots \<in> slot_percent ws ps ideal od ` set slots"
  unfolding best_improvement_eq
  using fold_max_bounds [where f = "slot_percent ws ps ideal od" and ?m0.0 = 0 and xs = slots]
  by blast+

lemma select_candidates_best:
  "select_candidates ws ps ideal od thr slots =
     apply_threshold thr (best_improvement ws ps ideal od slots)
       (sort_candidates (map (\<lambda>s. with_percent s (slot_percent ws ps ideal od s))
                          (filter (\<lambda>s. slot_percent ws ps ideal od s > 0) slots)))"
  by (simp add: select_candidates_eq best_improvement_eq)

lemma sorted_candidates_head:
  assumes pos: "0 < best_improvement ws ps ideal od slots"
  obtains h rest s where
    "sort_candidates (map (\<lambda>s. with_percent s (slot_percent ws ps ideal od s))
       (filter (\<lambda>s. slot_percent ws ps ideal od s > 0) slots)) = h # rest"
    "percent_improvement h = best_improvement ws ps ideal od slots"
    "\<forall>c \<in> set rest. percent_improvement c \<le> percent_improvement h"
    "s \<in> set slots" "slot_pos h = slot_pos s"
    "slot_percent ws ps ideal od s = best_improvement ws ps ideal od slots"
proof -
  let ?P = "slot_percent ws ps ideal od"
  let ?M = "best_improvement ws ps ideal od slots"
  let ?cands = "map (\<lambda>s. with_percent s (?P s)) (filter (\<lambda>s. ?P s > 0) slots)"
  from best_improvement_bounds(3) [of ws ps ideal od slots] pos
  obtain sm where sm: "sm \<in> set slots" "?P sm = ?M" by auto
  then have top_in: "with_percent sm ?M \<in> set ?cands" using pos by force
  have "?cands \<noteq> []"
  proof
    assume e: "?cands = []"
    show False using top_in unfolding e by simp
  qed
  from sort_candidates_head [OF this] obtain h rest where
    hr: "sort_candidates ?cands = h # rest" and h_in: "h \<in> set ?cands"
    and h_max: "\<forall>c \<in> set ?cands. percent_improvement c \<le> percent_improvement h"
    by blast
  from h_in obtain sh where sh: "sh \<in> set slots" "h = with_percent sh (?P sh)" by auto
  have "percent_improvement h \<le> ?M"
    using best_improvement_bounds(2) [OF sh(1)] sh(2) by (simp add: with_percent_fields)
  moreover have "?M \<le> percent_improvement h"
    using h_max [rule_format, OF top_in] by (simp add: with_percent_fields)
  ultimately have eq: "percent_improvement h = ?M" by simp
  have "set rest \<subseteq> set ?cands"
    using hr by (metis set_sort sort_candidates_def set_subset_Cons)
  then have rest_le: "\<forall>c \<in> set rest. percent_improvement c \<le> percent_improvement h"
    using h_max by blast
  have "slot_pos h = slot_pos sh" "?P sh = ?M"
    using sh(2) eq by (simp_all add: with_percent_fields)
  then show ?thesis using that hr eq rest_le sh(1) by blast
qed

lemma select_candidates_nonempty_iff:
  "select_candidates ws ps ideal od thr slots \<noteq> [] \<longleftrightarrow>
     0 < best_improvement ws ps ideal od slots \<and> (\<forall>t. thr = Some t \<longrightarrow> t \<le> 1)"
proof (cases "0 < best_improvement ws ps ideal od slots")
  case False
  have "filter (\<lambda>s. slot_percent ws ps ideal od s > 0) slots = []"
  proof (rule ccontr)
    assume "filter (\<lambda>s. slot_percent ws ps ideal od s > 0) slots \<noteq> []"
    then obtain s where "s \<in> set slots" "0 < slot_percent ws ps ideal od s"
      by (auto simp add: filter_empty_conv)
    then show False using best_improvement_bounds(2) [of s slots ws ps ideal od] False by simp
  qed
  then have "select_candidates ws ps ideal od thr slots = []"
    unfolding select_candidates_best
    by (simp add: sort_candidates_def apply_threshold_def split: option.splits)
  then show ?thesis using False by simp
next
  case True
  from sorted_candidates_head [OF True] obtain h rest where
    hr: "sort_candidates (map (\<lambda>s. with_percent s (slot_percent ws ps ideal od s))
       (filter (\<lambda>s. slot_percent ws ps ideal od s > 0) slots)) = h # rest"
    and h: "percent_improvement h = best_improvement ws ps ideal od slots"
    and rest: "\<forall>c \<in> set rest. percent_improvement c \<le> percent_improvement h"
    by metis
  show ?thesis
  proof (cases thr)
    case None
    then show ?thesis
      using True by (simp add: select_candidates_best hr apply_threshold_def)
  next
    case (Some t)
    show ?thesis
    proof (cases "t \<le> 1")
      case True
      have "percent_improvement h * t \<le> percent_improvement h"
        using True \<open>0 < best_improvement ws ps ideal od slots\<close> h
        by (simp add: mult_le_cancel_left1)
      then show ?thesis
        using True \<open>0 < best_improvement ws ps ideal od slots\<close> h
        by (simp add: select_candidates_best hr apply_threshold_def Some)
    next
      case False
      then have big: "percent_improvement h < percent_improvement h * t"
        using \<open>0 < best_improvement ws ps ideal od slots\<close> h by simp
      have "\<not> percent_improvement h * t \<le> percent_improvement c" if "c \<in> set (h # rest)" for c
        using that rest big by fastforce
      then have "filter (\<lambda>c. percent_improvement h * t \<le> percent_improvement c) (h # rest) = []"
        unfolding filter_empty_conv by blast
      then show ?thesis
        using False \<open>0 < best_improvement ws ps ideal od slots\<close> h
        by (simp add: select_candidates_best hr apply_threshold_def Some)
    qed
  qed
qed

lemma select_candidates_head:
  assumes "select_candidates ws ps ideal od thr slots \<noteq> []"
  obtains h rest s where
    "select_candidates ws ps ideal od thr slots = h # rest"
    "s \<in> set slots" "slot_pos h = slot_pos s"
    "slot_percent ws ps ideal od s = best_improvement ws ps ideal od slots"
proof -
  from assms have pos: "0 < best_improvement ws ps ideal od slots"
    and thr: "\<forall>t. thr = Some t \<longrightarrow> t \<le> 1"
    unfolding select_candidates_nonempty_iff by blast+
  from sorted_candidates_head [OF pos] obtain h rest s where
    hr: "sort_candidates (map (\<lambda>s. with_percent s (slot_percent ws ps ideal od s))
       (filter (\<lambda>s. slot_percent ws ps ideal od s > 0) slots)) = h # rest"
    and h: "percent_improvement h = best_improvement ws ps ideal od slots"
    and s: "s \<in> set slots" "slot_pos h = slot_pos s"
      "slot_percent ws ps ideal od s = best_improvement ws ps ideal od slots"
    by metis
  have "\<exists>rest'. select_candidates ws ps ideal od thr slots = h # rest'"
  proof (cases thr)
    case None
    then show ?thesis by (simp add: select_candidates_best hr apply_threshold_def)
  next
    case (Some t)
    then have "t \<le> 1" using thr by simp
    then have "percent_improvement h * t \<le> percent_improvement h"
      using pos h by (simp add: mult_le_cancel_left1)
    then show ?thesis
      using h by (simp add: select_candidates_best hr apply_threshold_def Some)
  qed
  then show ?thesis using that s by blast
qed


text \<open>The displacement after one unit in the best slot.\<close>

lemma displacement_nonneg: "0 \<le> optimizer_calculate_displacement a b"
  by (simp add: optimizer_calculate_displacement_def Let_def)

lemma slot_percent_at:
  "slot_percent ws ps ideal od s =
     (if od \<noteq> 0 then
        (od - optimizer_calculate_displacement
                (optimizer_calculate_com (ws @ [effect_weight_grams]) (ps @ [slot_pos s])) ideal) / od
      else 0)"
  by (simp add: slot_percent_def Let_def slot_pos_def)

lemma slot_percent_same_pos:
  "slot_pos s = slot_pos s' \<Longrightarrow> slot_percent ws ps ideal od s = slot_percent ws ps ideal od s'"
  by (simp add: slot_percent_at)

lemma displacement_at_best:
  assumes "slot_percent ws ps ideal od s = m" and "0 < m"
  shows "optimizer_calculate_displacement
           (optimizer_calculate_com (ws @ [effect_weight_grams]) (ps @ [slot_pos s])) ideal =
         od * (1 - m)"
proof -
  have nz: "od \<noteq> 0" using assms by (auto simp add: slot_percent_at split: if_splits)
  then have "(od - optimizer_calculate_displacement
                (optimizer_calculate_com (ws @ [effect_weight_grams]) (ps @ [slot_pos s])) ideal) / od = m"
    using assms(1) by (simp add: slot_percent_at)
  then have "od - optimizer_calculate_displacement
                (optimizer_calculate_com (ws @ [effect_weight_grams]) (ps @ [slot_pos s])) ideal = m * od"
    using nz by (simp add: divide_eq_eq)
  then show ?thesis by (simp add: algebra_simps)
qed

lemma final_disp_small_budget:
  assumes run: "compute_optimal_tray_layout ws ps ideal bias gs flags mw unit thr = Inr r"
    and avail: "0 < convert_to_grams mw unit - sum_list ws"
    and small: "convert_to_grams mw unit - sum_list ws < 2 * effect_weight_grams"
    and built: "build_slots gs flags = Inr (slots, lay0, em0)"
  shows "final_disp r =
     (if effect_weight_grams \<le> convert_to_grams mw unit - sum_list ws \<and>
         0 < best_improvement ws ps (apply_bias_to_com ideal bias)
               (optimizer_calculate_displacement (optimizer_calculate_com ws ps)
                  (apply_bias_to_com ideal bias)) slots \<and>
         (\<forall>t. thr = Some t \<longrightarrow> t \<le> 1)
      then optimizer_calculate_displacement (optimizer_calculate_com ws ps)
             (apply_bias_to_com ideal bias) *
           (1 - best_improvement ws ps (apply_bias_to_com ideal bias)
                  (optimizer_calculate_displacement (optimizer_calculate_com ws ps)
                     (apply_bias_to_com ideal bias)) slots)
      else optimizer_calculate_displacement (optimizer_calculate_com ws ps)
             (apply_bias_to_com ideal bias))"
proof -
  define av where "av = convert_to_grams mw unit - sum_list ws"
  define ideal' where "ideal' = apply_bias_to_com ideal bias"
  define od where "od = optimizer_calculate_displacement (optimizer_calculate_com ws ps) ideal'"
  define m where "m = best_improvement ws ps ideal' od slots"
  define sel where "sel = select_candidates ws ps ideal' od thr slots"
  from compute_stages [OF run avail] obtain slots' lay0' em0' lay1 em1 added used where
    built': "build_slots gs flags = Inr (slots', lay0', em0')"
    and placed': "place_weights (convert_to_grams mw unit - sum_list ws)
       (select_candidates ws ps (apply_bias_to_com ideal bias)
          (optimizer_calculate_displacement (optimizer_calculate_com ws ps)
             (apply_bias_to_com ideal bias)) thr slots')
       (lay0', em0', 0, []) = Inr (lay1, em1, added, used)"
    and fd': "final_disp r = optimizer_calculate_displacement
       (optimizer_calculate_com (ws @ map (\<lambda>_. effect_weight_grams) used) (ps @ map slot_pos used))
       (apply_bias_to_com ideal bias)"
    by metis
  have same: "slots' = slots" "lay0' = lay0" "em0' = em0"
    using built built' by simp_all
  have placed: "place_weights av sel (lay0, em0, 0, []) = Inr (lay1, em1, added, used)"
    using placed' unfolding same av_def sel_def od_def ideal'_def .
  have fd: "final_disp r = optimizer_calculate_displacement
       (optimizer_calculate_com (ws @ map (\<lambda>_. effect_weight_grams) used) (ps @ map slot_pos used))
       ideal'"
    using fd' unfolding ideal'_def .
  have used: "used = (if effect_weight_grams \<le> av then take 1 sel else [])"
    using place_weights_one_unit [OF placed] small by (simp add: av_def)
  define cnd where
    "cnd \<longleftrightarrow> effect_weight_grams \<le> av \<and> 0 < m \<and> (\<forall>t. thr = Some t \<longrightarrow> t \<le> 1)"
  have "final_disp r = (if cnd then od * (1 - m) else od)"
  proof (cases cnd)
    case True
    then have parts: "effect_weight_grams \<le> av" "0 < m" "\<forall>t. thr = Some t \<longrightarrow> t \<le> 1"
      unfolding cnd_def by blast+
    have "sel \<noteq> []"
      unfolding sel_def select_candidates_nonempty_iff using parts by (simp add: m_def)
    from select_candidates_head [OF this [unfolded sel_def]] obtain h rest s where
      hs: "sel = h # rest" "slot_pos h = slot_pos s" "slot_percent ws ps ideal' od s = m"
      unfolding sel_def m_def by metis
    have "used = [h]" using used parts(1) hs(1) by simp
    then have "final_disp r = optimizer_calculate_displacement
       (optimizer_calculate_com (ws @ [effect_weight_grams]) (ps @ [slot_pos s])) ideal'"
      using fd hs(2) by simp
    also have "\<dots> = od * (1 - m)"
      using hs(3) parts(2) by (rule displacement_at_best)
    finally show ?thesis using True by simp
  next
    case False
    have "used = []"
    proof (cases "effect_weight_grams \<le> av")
      case True
      with False have "\<not> (0 < m \<and> (\<forall>t. thr = Some t \<longrightarrow> t \<le> 1))"
        unfolding cnd_def by blast
      then have "sel = []"
        unfolding sel_def m_def using select_candidates_nonempty_iff by blast
      then show ?thesis using used by simp
    next
      case False
      then show ?thesis using used by simp
    qed
    then have "final_disp r = od" using fd by (simp add: od_def)
    then show ?thesis using False by simp
  qed
  then show ?thesis unfolding cnd_def av_def m_def od_def ideal'_def .
qed

lemma best_improvement_mono:
  assumes "slot_pos ` set slotsA \<subseteq> slot_pos ` set slotsB"
  shows "best_improvement ws ps ideal od slotsA \<le> best_improvement ws ps ideal od slotsB"
proof -
  from best_improvement_bounds(3) [of ws ps ideal od slotsA]
  consider "best_improvement ws ps ideal od slotsA = 0"
    | s where "s \<in> set slotsA" "slot_percent ws ps ideal od s = best_improvement ws ps ideal od slotsA"
    by force
  then show ?thesis
  proof cases
    case 1
    then show ?thesis using best_improvement_bounds(1) [of ws ps ideal od slotsB] by simp
  next
    case 2
    from 2(1) assms obtain s' where s': "s' \<in> set slotsB" "slot_pos s' = slot_pos s"
      by (metis imageE image_eqI subsetD)
    have "slot_percent ws ps ideal od s' = slot_percent ws ps ideal od s"
      by (rule slot_percent_same_pos [OF s'(2)])
    then show ?thesis
      using best_improvement_bounds(2) [OF s'(1), of ws ps ideal od] 2(2) by simp
  qed
qed

text \<open>
  Claim C3, as amended. With the sensor data, ideal COM, bias, limit and threshold fixed and
  an available weight below two units (226 g), so that at most one unit can be placed: if
  both configurations return a result and every slot position the first one enables is also
  enabled by the second, the final displacement of the second is at most that of the first.
\<close>

theorem single_unit_monotone:
  assumes small: "convert_to_grams mw unit - sum_list ws < 2 * effect_weight_grams"
    and runA: "compute_optimal_tray_layout ws ps ideal bias gsA flagsA mw unit thr = Inr rA"
    and runB: "compute_optimal_tray_layout ws ps ideal bias gsB flagsB mw unit thr = Inr rB"
    and sub: "enabled_slot_positions gsA flagsA \<subseteq> enabled_slot_positions gsB flagsB"
  shows "final_disp rB \<le> final_disp rA"
proof (cases "0 < convert_to_grams mw unit - sum_list ws")
  case False
  then have "final_disp rA = final_disp rB"
    using runA runB by (auto simp add: compute_optimal_tray_layout_def Let_def)
  then show ?thesis by simp
next
  case True
  from compute_stages [OF runA True] obtain slotsA layA emA where
    builtA: "build_slots gsA flagsA = Inr (slotsA, layA, emA)" by metis
  from compute_stages [OF runB True] obtain slotsB layB emB where
    builtB: "build_slots gsB flagsB = Inr (slotsB, layB, emB)" by metis
  define ideal' where "ideal' = apply_bias_to_com ideal bias"
  define od where "od = optimizer_calculate_displacement (optimizer_calculate_com ws ps) ideal'"
  define mA where "mA = best_improvement ws ps ideal' od slotsA"
  define mB where "mB = best_improvement ws ps ideal' od slotsB"
  define cA where "cA \<longleftrightarrow> effect_weight_grams \<le> convert_to_grams mw unit - sum_list ws \<and>
                         0 < mA \<and> (\<forall>t. thr = Some t \<longrightarrow> t \<le> 1)"
  define cB where "cB \<longleftrightarrow> effect_weight_grams \<le> convert_to_grams mw unit - sum_list ws \<and>
                         0 < mB \<and> (\<forall>t. thr = Some t \<longrightarrow> t \<le> 1)"
  have fdA: "final_disp rA = (if cA then od * (1 - mA) else od)"
    unfolding cA_def mA_def od_def ideal'_def
    by (rule final_disp_small_budget [OF runA True small builtA])
  have fdB: "final_disp rB = (if cB then od * (1 - mB) else od)"
    unfolding cB_def mB_def od_def ideal'_def
    by (rule final_disp_small_budget [OF runB True small builtB])
  have "slot_pos ` set slotsA \<subseteq> slot_pos ` set slotsB"
    using sub by (simp add: enabled_slot_positions_def builtA builtB)
  then have le: "mA \<le> mB" unfolding mA_def mB_def by (rule best_improvement_mono)
  have od0: "0 \<le> od" unfolding od_def by (rule displacement_nonneg)
  have mB_pos: "0 < mB" if cB using that by (simp add: cB_def)
  show ?thesis
  proof (cases cA)
    case True
    then have cB using le by (auto simp add: cA_def cB_def)
    moreover have "od * (1 - mB) \<le> od * (1 - mA)"
      using le od0 by (intro mult_left_mono) simp_all
    ultimately show ?thesis using True by (simp add: fdA fdB)
  next
    case False
    have "od * (1 - mB) \<le> od" if cB
    proof -
      have "0 \<le> od * mB" using mB_pos [OF that] od0 by simp
      then show ?thesis by (simp add: algebra_simps)
    qed
    then show ?thesis using False by (simp add: fdA fdB)
  qed
qed


text \<open>
  With room for three units the property fails: the one-cell tray ends on the ideal COM,
  the three-cell tray that contains its slot fills all three cells and overshoots.
\<close>

theorem more_slots_counterexample:
  "enabled_slot_positions [''weight_tray1'' \<mapsto> tray_of 1 1] front_only
     \<subseteq> enabled_slot_positions [''weight_tray1'' \<mapsto> tray_of 1 3] front_only
   \<and> compute_optimal_tray_layout [113] [(0, 0)] (0, 1) Map.empty
         [''weight_tray1'' \<mapsto> tray_of 1 1] front_only 452 ''g'' None =
       Inr \<lparr>front_tray = [[1]], back_tray = [], final_com = (0, 1), final_disp = 0,
            total_weight = 226, effect_map = (\<lambda>_. [])(Front := [[1]])\<rparr>
   \<and> compute_optimal_tray_layout [113] [(0, 0)] (0, 1) Map.empty
         [''weight_tray1'' \<mapsto> tray_of 1 3] front_only 452 ''g'' None =
       Inr \<lparr>front_tray = [[1, 1, 1]], back_tray = [], final_com = (0, 3 / 2), final_disp = 1 / 2,
            total_weight = 452, effect_map = (\<lambda>_. [])(Front := [[15 / 16, 1, 15 / 16]])\<rparr>
   \<and> (0 :: real) < 1 / 2"
  by (simp add: positions_1x1 positions_1x3 layout_1x1 layout_1x3)

text \<open>With room for one unit, a taller tray that contains the slot does better.\<close>

lemma build_3x1:
  "build_slots [''weight_tray1'' \<mapsto> tray_of 3 1] front_only =
     Inr ([\<lparr>slot_tray = Front, slot_row = 0, slot_col = 0, slot_x = 0, slot_y = 15 / 8\<rparr>,
           \<lparr>slot_tray = Front, slot_row = 1, slot_col = 0, slot_x = 0, slot_y = 2\<rparr>,
           \<lparr>slot_tray = Front, slot_row = 2, slot_col = 0, slot_x = 0, slot_y = 17 / 8\<rparr>],
          (\<lambda>_. [])(Front := [[0], [0], [0]]), (\<lambda>_. [])(Front := [[0], [0], [0]]))"
  by (simp add: build_slots_def build_tray_def front_only_def tray_key_def get_or_def lookup_def
      tray_of_def grid_slots_def upt_3 Let_def replicate_3)

lemma positions_3x1:
  "enabled_slot_positions [''weight_tray1'' \<mapsto> tray_of 3 1] front_only =
     {(0, 15 / 8), (0, 2), (0, 17 / 8)}"
  by (simp add: enabled_slot_positions_def build_3x1 slot_pos_def)

lemma one_unit_1x1:
  "compute_optimal_tray_layout [113] [(0, 0)] (0, 17 / 16) Map.empty
     [''weight_tray1'' \<mapsto> tray_of 1 1] front_only 300 ''g'' None =
   Inr \<lparr>front_tray = [[1]], back_tray = [], final_com = (0, 1), final_disp = 1 / 16,
        total_weight = 226, effect_map = (\<lambda>_. [])(Front := [[1]])\<rparr>"
  by (simp add: compute_optimal_tray_layout_def Let_def build_1x1 convert_to_grams_def
      convert_unit_def apply_bias_to_com_def get_or_def optimizer_calculate_com_def
      displacement_same_x displacement_same_y slot_percent_def effect_weight_grams_def
      with_percent_def select_candidates_def sort_candidates_def apply_threshold_def
      set_cell_def get_cell_def normalize_effect_map_def)

lemma one_unit_3x1:
  "compute_optimal_tray_layout [113] [(0, 0)] (0, 17 / 16) Map.empty
     [''weight_tray1'' \<mapsto> tray_of 3 1] front_only 300 ''g'' None =
   Inr \<lparr>front_tray = [[0], [0], [1]], back_tray = [], final_com = (0, 17 / 16), final_disp = 0,
        total_weight = 226, effect_map = (\<lambda>_. [])(Front := [[0], [0], [1]])\<rparr>"
  by (simp add: compute_optimal_tray_layout_def Let_def build_3x1 convert_to_grams_def
      convert_unit_def apply_bias_to_com_def get_or_def optimizer_calculate_com_def
      displacement_same_x displacement_same_y slot_percent_def effect_weight_grams_def
      with_percent_def select_candidates_def sort_candidates_def apply_threshold_def
      set_cell_def get_cell_def normalize_effect_map_def)

theorem single_unit_monotone_witness:
  "convert_to_grams 300 ''g'' - sum_list [113] < 2 * effect_weight_grams
   \<and> compute_optimal_tray_layout [113] [(0, 0)] (0, 17 / 16) Map.empty
         [''weight_tray1'' \<mapsto> tray_of 1 1] front_only 300 ''g'' None =
       Inr \<lparr>front_tray = [[1]], back_tray = [], final_com = (0, 1), final_disp = 1 / 16,
            total_weight = 226, effect_map = (\<lambda>_. [])(Front := [[1]])\<rparr>
   \<and> compute_optimal_tray_layout [113] [(0, 0)] (0, 17 / 16) Map.empty
         [''weight_tray1'' \<mapsto> tray_of 3 1] front_only 300 ''g'' None =
       Inr \<lparr>front_tray = [[0], [0], [1]], back_tray = [], final_com = (0, 17 / 16),
            final_disp = 0, total_weight = 226,
            effect_map = (\<lambda>_. [])(Front := [[0], [0], [1]])\<rparr>
   \<and> enabled_slot_positions [''weight_tray1'' \<mapsto> tray_of 1 1] front_only
       \<subseteq> enabled_slot_positions [''weight_tray1'' \<mapsto> tray_of 3 1] front_only
   \<and> final_disp \<lparr>front_tray = [[0], [0], [1]], back_tray = [], final_com = (0, 17 / 16),
            final_disp = 0, total_weight = 226,
            effect_map = (\<lambda>_. [])(Front := [[0], [0], [1 :: real]])\<rparr>
       \<le> final_disp \<lparr>front_tray = [[1]], back_tray = [], final_com = (0, 1), final_disp = 1 / 16,
            total_weight = 226, effect_map = (\<lambda>_. [])(Front := [[1 :: real]])\<rparr>"
proof -
  have small: "convert_to_grams 300 ''g'' - sum_list [113] < 2 * effect_weight_grams"
    by (simp add: convert_to_grams_def convert_unit_def effect_weight_grams_def)
  have sub: "enabled_slot_positions [''weight_tray1'' \<mapsto> tray_of 1 1] front_only
       \<subseteq> enabled_slot_positions [''weight_tray1'' \<mapsto> tray_of 3 1] front_only"
    by (simp add: positions_1x1 positions_3x1)
  note less = single_unit_monotone [OF small one_unit_1x1 one_unit_3x1 sub]
  show ?thesis
    by (intro conjI small one_unit_1x1 one_unit_3x1 sub less)
qed

subsection \<open>Tray optimizer: a normalised effect map\<close>

text \<open>
  The three-row tray with room for two units. The two occupied slots record the percents
  \<open>17/18\<close> and \<open>8/9\<close>; the effect map holds them divided by \<open>17/18\<close>, that is 1 and
  \<open>16/17\<close>, and 0 in the free cell.
\<close>

lemma two_units_3x1:
  "compute_optimal_tray_layout [113] [(0, 0)] (0, 9 / 8) Map.empty
     [''weight_tray1'' \<mapsto> tray_of 3 1] front_only 339 ''g'' None =
   Inr \<lparr>front_tray = [[0], [1], [1]], back_tray = [], final_com = (0, 11 / 8), final_disp = 1 / 4,
        total_weight = 339, effect_map = (\<lambda>_. [])(Front := [[0], [16 / 17], [1]])\<rparr>"
  by (simp add: compute_optimal_tray_layout_def Let_def build_3x1 convert_to_grams_def
      convert_unit_def apply_bias_to_com_def get_or_def optimizer_calculate_com_def
      displacement_same_x displacement_same_y slot_percent_def effect_weight_grams_def
      with_percent_def select_candidates_def sort_candidates_def apply_threshold_def
      set_cell_def get_cell_def normalize_effect_map_def)

lemma recorded_percent_3x1:
  "recorded_percent [113] [(0, 0)] (0, 9 / 8) Map.empty
     \<lparr>slot_tray = Front, slot_row = 0, slot_col = 0, slot_x = 0, slot_y = 15 / 8\<rparr> = 5 / 6"
  "recorded_percent [113] [(0, 0)] (0, 9 / 8) Map.empty
     \<lparr>slot_tray = Front, slot_row = 1, slot_col = 0, slot_x = 0, slot_y = 2\<rparr> = 8 / 9"
  "recorded_percent [113] [(0, 0)] (0, 9 / 8) Map.empty
     \<lparr>slot_tray = Front, slot_row = 2, slot_col = 0, slot_x = 0, slot_y = 17 / 8\<rparr> = 17 / 18"
  by (simp_all add: recorded_percent_def Let_def slot_percent_def apply_bias_to_com_def get_or_def
      optimizer_calculate_com_def displacement_same_x effect_weight_grams_def)

theorem effect_map_normalized_witness:
  "compute_optimal_tray_layout [113] [(0, 0)] (0, 9 / 8) Map.empty
     [''weight_tray1'' \<mapsto> tray_of 3 1] front_only 339 ''g'' None =
   Inr \<lparr>front_tray = [[0], [1], [1]], back_tray = [], final_com = (0, 11 / 8), final_disp = 1 / 4,
        total_weight = 339, effect_map = (\<lambda>_. [])(Front := [[0], [16 / 17], [1]])\<rparr>
   \<and> in_tray (result_trays \<lparr>front_tray = [[0], [1], [1]], back_tray = [],
          final_com = (0, 11 / 8), final_disp = 1 / 4, total_weight = 339,
          effect_map = (\<lambda>_. [])(Front := [[0], [16 / 17], [1]])\<rparr>) (Front, 2, 0)
   \<and> cell (result_trays \<lparr>front_tray = [[0], [1], [1]], back_tray = [],
          final_com = (0, 11 / 8), final_disp = 1 / 4, total_weight = 339,
          effect_map = (\<lambda>_. [])(Front := [[0], [16 / 17], [1]])\<rparr>) (Front, 2, 0) = 1
   \<and> recorded_percent [113] [(0, 0)] (0, 9 / 8) Map.empty
        \<lparr>slot_tray = Front, slot_row = 1, slot_col = 0, slot_x = 0, slot_y = 2\<rparr> = 8 / 9
   \<and> recorded_percent [113] [(0, 0)] (0, 9 / 8) Map.empty
        \<lparr>slot_tray = Front, slot_row = 2, slot_col = 0, slot_x = 0, slot_y = 17 / 8\<rparr> = 17 / 18
   \<and> cell ((\<lambda>_. [])(Front := [[0], [16 / 17], [1 :: real]])) (Front, 1, 0) = (8 / 9) / (17 / 18)
   \<and> cell ((\<lambda>_. [])(Front := [[0], [16 / 17], [1 :: real]])) (Front, 2, 0) = (17 / 18) / (17 / 18)
   \<and> cell ((\<lambda>_. [])(Front := [[0], [16 / 17], [1 :: real]])) (Front, 0, 0) = 0"
proof -
  let ?r = "\<lparr>front_tray = [[0], [1], [1]], back_tray = [],
          final_com = (0, 11 / 8), final_disp = 1 / 4, total_weight = 339,
          effect_map = (\<lambda>_. [])(Front := [[0], [16 / 17], [1]])\<rparr>"
  let ?P = "recorded_percent [113] [(0, 0)] (0, 9 / 8) Map.empty"
  let ?s0 = "\<lparr>slot_tray = Front, slot_row = 0, slot_col = 0, slot_x = 0, slot_y = 15 / 8\<rparr>"
  let ?s1 = "\<lparr>slot_tray = Front, slot_row = 1, slot_col = 0, slot_x = 0, slot_y = 2\<rparr>"
  let ?s2 = "\<lparr>slot_tray = Front, slot_row = 2, slot_col = 0, slot_x = 0, slot_y = 17 / 8\<rparr>"
  have occupied: "in_tray (result_trays ?r) (Front, 2, 0)" "cell (result_trays ?r) (Front, 2, 0) = 1"
    by (simp_all add: in_tray_def in_grid_def cell_def result_trays_def)
  then have placed: "\<exists>k. in_tray (result_trays ?r) k \<and> cell (result_trays ?r) k = 1"
    by blast
  have keys: "slot_key ?s0 = (Front, 0, 0)" "slot_key ?s1 = (Front, 1, 0)"
    "slot_key ?s2 = (Front, 2, 0)"
    by (simp_all add: slot_key_def)
  have occ: "cell (result_trays ?r) (Front, 0, 0) \<noteq> 1" "cell (result_trays ?r) (Front, 1, 0) = 1"
    "in_tray (result_trays ?r) (Front, 0, 0)"
    by (simp_all add: in_tray_def in_grid_def cell_def result_trays_def)
  from effect_map_normalized [OF two_units_3x1 placed]
  obtain slots lay0 em0 mx where
    built: "build_slots [''weight_tray1'' \<mapsto> tray_of 3 1] front_only = Inr (slots, lay0, em0)"
    and vals: "\<forall>s \<in> set slots. cell (result_trays ?r) (slot_key s) = 1 \<longrightarrow>
                 ?P s \<le> mx \<and> cell (effect_map ?r) (slot_key s) = ?P s / mx"
    and top: "\<exists>s \<in> set slots. cell (result_trays ?r) (slot_key s) = 1 \<and> ?P s = mx"
    and free: "\<forall>k. in_tray (result_trays ?r) k \<longrightarrow>
                 (cell (result_trays ?r) k \<noteq> 1 \<longrightarrow> cell (effect_map ?r) k = 0)"
    by blast
  have slots: "slots = [?s0, ?s1, ?s2]" using built by (simp add: build_3x1)
  have m1: "?s1 \<in> set slots" and m2: "?s2 \<in> set slots" by (simp_all add: slots)
  have o1: "cell (result_trays ?r) (slot_key ?s1) = 1" unfolding keys by (rule occ(2))
  have o2: "cell (result_trays ?r) (slot_key ?s2) = 1" unfolding keys by (rule occupied(2))
  have v1: "?P ?s1 \<le> mx" "cell (effect_map ?r) (Front, 1, 0) = ?P ?s1 / mx"
    using vals [rule_format, OF m1 o1] unfolding keys by blast+
  have v2: "?P ?s2 \<le> mx" "cell (effect_map ?r) (Front, 2, 0) = ?P ?s2 / mx"
    using vals [rule_format, OF m2 o2] unfolding keys by blast+
  from top obtain s where s: "s \<in> set slots" "cell (result_trays ?r) (slot_key s) = 1" "?P s = mx"
    by blast
  have "s \<noteq> ?s0"
  proof
    assume "s = ?s0"
    then have "cell (result_trays ?r) (Front, 0, 0) = 1" using s(2) keys(1) by simp
    then show False using occ(1) by simp
  qed
  moreover have "s = ?s0 \<or> s = ?s1 \<or> s = ?s2" using s(1) by (simp add: slots)
  ultimately have "s = ?s1 \<or> s = ?s2" by blast
  then have "mx = 8 / 9 \<or> mx = 17 / 18"
    using s(3) recorded_percent_3x1 by auto
  moreover have "17 / 18 \<le> mx" using v2(1) by (simp only: recorded_percent_3x1)
  ultimately have mx: "mx = 17 / 18" by auto
  have c1: "cell (effect_map ?r) (Front, 1, 0) = (8 / 9) / (17 / 18)"
    using v1(2) by (simp only: mx recorded_percent_3x1)
  have c2: "cell (effect_map ?r) (Front, 2, 0) = (17 / 18) / (17 / 18)"
    using v2(2) by (simp only: mx recorded_percent_3x1)
  have c0: "cell (effect_map ?r) (Front, 0, 0) = 0"
    using free [rule_format, of "(Front, 0, 0)"] occ(1) occ(3) by blast
  have sel: "effect_map ?r = (\<lambda>_. [])(Front := [[0], [16 / 17], [1 :: real]])" by simp
  show ?thesis
    using c1 c2 c0 unfolding sel
    by (intro conjI two_units_3x1 occupied recorded_percent_3x1)
qed

end
